theory Spec2Isabelle
  imports Complex_Main "HOL-Library.Log_Nat"
begin

section \<open>Python values used by the webhook\<close>

subsection \<open>Exceptions\<close>

text \<open>
  The exceptions that can leave the functions of \<^verbatim>\<open>debtclear_webhook.py\<close>.
  \<open>HTTPException\<close> carries its \<^verbatim>\<open>status_code\<close> and \<^verbatim>\<open>detail\<close>, \<open>OSError\<close> the
  text that \<^verbatim>\<open>str(e)\<close> gives. \<open>ValueError\<close> and \<open>OverflowError\<close> are the built-in
  exceptions of \<^verbatim>\<open>datetime.strptime\<close> and of \<^verbatim>\<open>round\<close>; their messages are
  not modelled.
\<close>

datatype py_exception =
    ValueError
  | OverflowError
  | ZeroDivisionError
  | OSError string
  | HTTPException nat string

subsection \<open>Binary64 floating point\<close>

text \<open>
  A Python \<^verbatim>\<open>float\<close> is an IEEE 754 binary64 number. A finite one is the
  rational number it denotes; every arithmetic operation computes the exact
  rational result and rounds it to the nearest binary64 number, ties to even
  (53 significant bits, least exponent \<open>-1074\<close>), and gives an infinity when
  the rounded result reaches \<open>2 ^ 1024\<close>. The sign of zero is not kept: no
  operation of the program observes it.
\<close>

datatype pyfloat = Fin rat | PInf | NInf | NaN

definition round_half_even :: "rat \<Rightarrow> int" where
  "round_half_even x =
     (let f = \<lfloor>x\<rfloor>; d = x - of_int f
      in if d < 1/2 then f else if 1/2 < d then f + 1 else if even f then f else f + 1)"

definition floor_log2 :: "rat \<Rightarrow> int" where
  "floor_log2 x = (if 1 \<le> x then bitlen \<lfloor>x\<rfloor> - 1 else - bitlen (\<lceil>1 / x\<rceil> - 1))"

definition round_double :: "rat \<Rightarrow> rat" where
  "round_double x =
     (if x = 0 then 0
      else let q = max (floor_log2 \<bar>x\<bar> - 52) (- 1074)
           in of_int (round_half_even (x / 2 powi q)) * 2 powi q)"

definition to_float :: "rat \<Rightarrow> pyfloat" where
  "to_float x =
     (let y = round_double x
      in if 2 ^ 1024 \<le> y then PInf else if y \<le> - (2 ^ 1024) then NInf else Fin y)"

definition is_double :: "rat \<Rightarrow> bool" where
  "is_double x \<longleftrightarrow> round_double x = x \<and> \<bar>x\<bar> < 2 ^ 1024"

text \<open>\<^verbatim>\<open>float(n)\<close> for an \<^verbatim>\<open>int\<close> operand of a float operation.\<close>

definition float_of_int :: "int \<Rightarrow> pyfloat" where
  "float_of_int n = to_float (of_int n)"

fun fmul :: "pyfloat \<Rightarrow> pyfloat \<Rightarrow> pyfloat" where
  "fmul (Fin a) (Fin b) = to_float (a * b)"
| "fmul NaN _ = NaN"
| "fmul _ NaN = NaN"
| "fmul (Fin a) PInf = (if a = 0 then NaN else if 0 < a then PInf else NInf)"
| "fmul (Fin a) NInf = (if a = 0 then NaN else if 0 < a then NInf else PInf)"
| "fmul PInf (Fin b) = (if b = 0 then NaN else if 0 < b then PInf else NInf)"
| "fmul NInf (Fin b) = (if b = 0 then NaN else if 0 < b then NInf else PInf)"
| "fmul PInf PInf = PInf"
| "fmul PInf NInf = NInf"
| "fmul NInf PInf = NInf"
| "fmul NInf NInf = PInf"

fun fadd :: "pyfloat \<Rightarrow> pyfloat \<Rightarrow> pyfloat" where
  "fadd (Fin a) (Fin b) = to_float (a + b)"
| "fadd NaN _ = NaN"
| "fadd _ NaN = NaN"
| "fadd PInf NInf = NaN"
| "fadd NInf PInf = NaN"
| "fadd PInf _ = PInf"
| "fadd _ PInf = PInf"
| "fadd NInf _ = NInf"
| "fadd _ NInf = NInf"

text \<open>\<^verbatim>\<open>x < n\<close> for a float \<open>x\<close> and an integer \<open>n\<close>: Python compares the exact values.\<close>

fun flt_int :: "pyfloat \<Rightarrow> int \<Rightarrow> bool" where
  "flt_int (Fin a) n = (a < of_int n)"
| "flt_int NInf n = True"
| "flt_int PInf n = False"
| "flt_int NaN n = False"

text \<open>\<^verbatim>\<open>round(x)\<close> with one argument: the nearest integer, ties to even.\<close>

fun py_round :: "pyfloat \<Rightarrow> py_exception + int" where
  "py_round (Fin a) = Inr (round_half_even a)"
| "py_round NaN = Inl ValueError"
| "py_round PInf = Inl OverflowError"
| "py_round NInf = Inl OverflowError"

text \<open>\<^verbatim>\<open>a / b\<close> for two \<^verbatim>\<open>int\<close>s: the correctly rounded quotient.\<close>

definition int_truediv :: "int \<Rightarrow> int \<Rightarrow> py_exception + pyfloat" where
  "int_truediv a b =
     (if b = 0 then Inl ZeroDivisionError
      else case to_float (of_int a / of_int b) of
             Fin y \<Rightarrow> Inr (Fin y)
           | _ \<Rightarrow> Inl OverflowError)"

subsection \<open>Dates\<close>

text \<open>
  A naive \<^verbatim>\<open>datetime\<close>, with the proleptic Gregorian ordinal of
  \<^verbatim>\<open>datetime.toordinal\<close> and the day count of the \<^verbatim>\<open>timedelta\<close> that the
  subtraction of two datetimes gives.
\<close>

record datetime =
  year :: int
  month :: int
  day :: int
  hour :: int
  minute :: int
  second :: int
  microsecond :: int

definition is_leap :: "int \<Rightarrow> bool" where
  "is_leap y \<longleftrightarrow> y mod 4 = 0 \<and> (y mod 100 \<noteq> 0 \<or> y mod 400 = 0)"

definition days_in_month :: "int \<Rightarrow> int \<Rightarrow> int" where
  "days_in_month y m =
     (if m = 2 \<and> is_leap y then 29
      else [31, 28, 31, 30, 31, 30, 31, 31, 30, 31, 30, 31] ! nat (m - 1))"

definition days_before_year :: "int \<Rightarrow> int" where
  "days_before_year y' = (let y = y' - 1 in y * 365 + y div 4 - y div 100 + y div 400)"

definition days_before_month :: "int \<Rightarrow> int \<Rightarrow> int" where
  "days_before_month y m =
     [0, 31, 59, 90, 120, 151, 181, 212, 243, 273, 304, 334] ! nat (m - 1)
       + (if 2 < m \<and> is_leap y then 1 else 0)"

definition valid_date :: "int \<Rightarrow> int \<Rightarrow> int \<Rightarrow> bool" where
  "valid_date y m d \<longleftrightarrow>
     1 \<le> y \<and> y \<le> 9999 \<and> 1 \<le> m \<and> m \<le> 12 \<and> 1 \<le> d \<and> d \<le> days_in_month y m"

definition valid_datetime :: "datetime \<Rightarrow> bool" where
  "valid_datetime t \<longleftrightarrow>
     valid_date (year t) (month t) (day t) \<and> 0 \<le> hour t \<and> hour t < 24 \<and>
     0 \<le> minute t \<and> minute t < 60 \<and> 0 \<le> second t \<and> second t < 60 \<and>
     0 \<le> microsecond t \<and> microsecond t < 1000000"

definition toordinal :: "datetime \<Rightarrow> int" where
  "toordinal t = days_before_year (year t) + days_before_month (year t) (month t) + day t"

text \<open>\<^verbatim>\<open>(a - b).days\<close>: the normalised timedelta has \<open>0 \<le> seconds < 86400\<close>.\<close>

definition timedelta_days :: "datetime \<Rightarrow> datetime \<Rightarrow> int" where
  "timedelta_days a b =
     (let days = toordinal a - toordinal b;
          secs = (second a + minute a * 60 + hour a * 3600)
               - (second b + minute b * 60 + hour b * 3600);
          us = microsecond a - microsecond b
      in (days * 86400000000 + secs * 1000000 + us) div 86400000000)"

subsection \<open>\<^verbatim>\<open>datetime.strptime(s, "%Y-%m-%d")\<close>\<close>

text \<open>
  \<^verbatim>\<open>strptime\<close> compiles the format to the regular expression
  \<^verbatim>\<open>(?P<Y>\d\d\d\d)-(?P<m>1[0-2]|0[1-9]|[1-9])-(?P<d>3[0-1]|[1-2]\d|0[1-9]|[1-9]| [1-9])\<close>,
  matches it at the start of the string, refuses a string with text left
  after the match, and builds the date, which refuses a year, month or
  day out of range. A group is the list of the ways it can match, in the
  order in which the matcher tries them. Characters are bytes: \<^verbatim>\<open>\d\<close> is
  an ASCII digit here.
\<close>

definition is_digit :: "char \<Rightarrow> bool" where
  "is_digit c \<longleftrightarrow> c \<in> set ''0123456789''"

definition is_nonzero_digit :: "char \<Rightarrow> bool" where
  "is_nonzero_digit c \<longleftrightarrow> c \<in> set ''123456789''"

definition digit_value :: "char \<Rightarrow> int" where
  "digit_value c = int (of_char c) - 48"

text \<open>\<^verbatim>\<open>int(s)\<close> on the text of a group: leading blanks are skipped.\<close>

definition int_of_str :: "string \<Rightarrow> int" where
  "int_of_str s = foldl (\<lambda>a c. 10 * a + digit_value c) 0 (dropWhile (\<lambda>c. c = CHR '' '') s)"

fun lit :: "char \<Rightarrow> string \<Rightarrow> string list" where
  "lit c (a # rest) = (if a = c then [rest] else [])"
| "lit c [] = []"

fun one_char :: "(char \<Rightarrow> bool) \<Rightarrow> string \<Rightarrow> (string \<times> string) list" where
  "one_char p (a # rest) = (if p a then [([a], rest)] else [])"
| "one_char p [] = []"

fun two_chars :: "(char \<Rightarrow> bool) \<Rightarrow> (char \<Rightarrow> bool) \<Rightarrow> string \<Rightarrow> (string \<times> string) list" where
  "two_chars p q (a # b # rest) = (if p a \<and> q b then [([a, b], rest)] else [])"
| "two_chars p q _ = []"

fun group_Y :: "string \<Rightarrow> (string \<times> string) list" where
  "group_Y (a # b # c # d # rest) =
     (if is_digit a \<and> is_digit b \<and> is_digit c \<and> is_digit d then [([a, b, c, d], rest)] else [])"
| "group_Y _ = []"

definition group_m :: "string \<Rightarrow> (string \<times> string) list" where
  "group_m s =
     two_chars (\<lambda>c. c = CHR ''1'') (\<lambda>c. c \<in> set ''012'') s
     @ two_chars (\<lambda>c. c = CHR ''0'') is_nonzero_digit s
     @ one_char is_nonzero_digit s"

definition group_d :: "string \<Rightarrow> (string \<times> string) list" where
  "group_d s =
     two_chars (\<lambda>c. c = CHR ''3'') (\<lambda>c. c \<in> set ''01'') s
     @ two_chars (\<lambda>c. c \<in> set ''12'') is_digit s
     @ two_chars (\<lambda>c. c = CHR ''0'') is_nonzero_digit s
     @ one_char is_nonzero_digit s
     @ two_chars (\<lambda>c. c = CHR '' '') is_nonzero_digit s"

definition format_regex :: "string \<Rightarrow> ((string \<times> string \<times> string) \<times> string) list" where
  "format_regex s =
     concat (map (\<lambda>(y, r1).
       concat (map (\<lambda>r2.
         concat (map (\<lambda>(m, r3).
           concat (map (\<lambda>r4.
             map (\<lambda>(d, r5). ((y, m, d), r5)) (group_d r4))
           (lit CHR ''-'' r3)))
         (group_m r2)))
       (lit CHR ''-'' r1)))
     (group_Y s))"

definition strptime :: "string \<Rightarrow> py_exception + datetime" where
  "strptime data_string =
     (case format_regex data_string of
        [] \<Rightarrow> Inl ValueError
      | ((y, m, d), rest) # _ \<Rightarrow>
          if rest \<noteq> [] then Inl ValueError
          else if valid_date (int_of_str y) (int_of_str m) (int_of_str d)
          then Inr \<lparr>year = int_of_str y, month = int_of_str m, day = int_of_str d,
                    hour = 0, minute = 0, second = 0, microsecond = 0\<rparr>
          else Inl ValueError)"

section \<open>The claim calculation\<close>

record claim_calc =
  days_overdue :: int
  statutory_interest_gbp :: pyfloat
  compensation_gbp :: int
  total_claim_gbp :: pyfloat

definition annual_rate :: rat where
  "annual_rate = round_double (1275 / 10000)"

definition daily_rate :: rat where
  "daily_rate = round_double (annual_rate / 365)"

text \<open>
  \<^verbatim>\<open>calculate_statutory_claim(amount_gbp, due_date_str)\<close>. The source function has
  these two parameters only; \<open>now\<close> is the value that its call of
  \<^verbatim>\<open>datetime.now()\<close> returns, that is, the clock of the machine at the moment
  of the call.
\<close>

definition calculate_statutory_claim :: "datetime \<Rightarrow> pyfloat \<Rightarrow> string \<Rightarrow> py_exception + claim_calc" where
  "calculate_statutory_claim now amount_gbp due_date_str =
     (case strptime due_date_str of
        Inl e \<Rightarrow> Inl e
      | Inr due_date \<Rightarrow>
          let today = now;
              days = max 0 (timedelta_days today due_date)
          in (case py_round
                     (fmul (fmul (fmul amount_gbp (Fin daily_rate)) (float_of_int days))
                           (float_of_int 100)) of
                Inl e \<Rightarrow> Inl e
              | Inr cents \<Rightarrow>
                  (case int_truediv cents 100 of
                     Inl e \<Rightarrow> Inl e
                   | Inr interest \<Rightarrow>
                       (let compensation =
                              (if flt_int amount_gbp 1000 then 40
                               else if flt_int amount_gbp 10000 then 70
                               else 100);
                            total_claim = fadd (fadd amount_gbp interest) (float_of_int compensation)
                        in Inr \<lparr>days_overdue = days,
                                statutory_interest_gbp = interest,
                                compensation_gbp = compensation,
                                total_claim_gbp = total_claim\<rparr>))))"

text \<open>
  Lines 65 to 67 on a finite principal \<open>p\<close> and a day count, when no product
  overflows: the right-hand side is the expression
  \<^verbatim>\<open>round(amount_gbp * daily_rate * days_overdue * 100) / 100\<close> with the
  rounding of each of its five operations written out.
\<close>

definition binary64_interest :: "rat \<Rightarrow> int \<Rightarrow> rat" where
  "binary64_interest p days =
     round_double (of_int (round_half_even (round_double
        (round_double (round_double (p * daily_rate) * of_int days) * 100))) / 100)"

subsection \<open>The formulas of the specification\<close>

text \<open>
  The specification gives the interest as
  \<^verbatim>\<open>round2(principal * (annual_rate / 365) * days_overdue)\<close> with the annual rate
  0.1275, \<^verbatim>\<open>round2\<close> rounding to two decimal places at the cent level, and the
  compensation as a step function of the principal. These definitions
  follow that wording in exact arithmetic: the product is the rational
  number, and \<^verbatim>\<open>round2\<close> takes the nearest whole number of cents. The
  specification leaves the treatment of a half cent open between half-up
  and half-even, so both are defined.
\<close>

definition spec_annual_rate :: rat where
  "spec_annual_rate = 1275 / 10000"

definition spec_round2 :: "rat \<Rightarrow> rat" where
  "spec_round2 x = of_int (round_half_even (x * 100)) / 100"

definition spec_round2_half_up :: "rat \<Rightarrow> rat" where
  "spec_round2_half_up x = of_int \<lfloor>x * 100 + 1 / 2\<rfloor> / 100"

definition spec_product :: "rat \<Rightarrow> int \<Rightarrow> rat" where
  "spec_product p days = p * (spec_annual_rate / 365) * of_int days"

definition spec_interest :: "rat \<Rightarrow> int \<Rightarrow> rat" where
  "spec_interest p days = spec_round2 (spec_product p days)"

definition spec_compensation :: "rat \<Rightarrow> int" where
  "spec_compensation p = (if p < 1000 then 40 else if p < 10000 then 70 else 100)"

section \<open>The intake handler and its collaborators\<close>

subsection \<open>Data\<close>

text \<open>The pydantic model \<^verbatim>\<open>IntakeSubmission\<close>.\<close>

record submission =
  client_email :: string
  client_name :: string
  client_business :: string
  debtor_name :: string
  debtor_address :: string
  debtor_type :: string
  amount_owed_gbp :: pyfloat
  invoice_date :: string
  due_date :: string
  description_of_debt :: string
  dpa_accepted :: bool

text \<open>
  The dictionary \<^verbatim>\<open>case_data\<close> of \<^verbatim>\<open>handle_intake\<close>. Its keys are fixed, so it is a
  record; a field is the key with the prefix \<open>cd_\<close>, since the same key names
  appear in the submission and in the response.
\<close>

record case_data =
  cd_case_id :: string
  cd_client_email :: string
  cd_client_name :: string
  cd_client_business :: string
  cd_debtor_name :: string
  cd_debtor_address :: string
  cd_amount_owed_gbp :: pyfloat
  cd_invoice_date :: string
  cd_due_date :: string
  cd_description_of_debt :: string
  cd_statutory_interest_gbp :: pyfloat
  cd_compensation_gbp :: int
  cd_total_claim_gbp :: pyfloat
  cd_days_overdue :: int

text \<open>
  The text that \<^verbatim>\<open>generate_lba_pdf\<close> writes is a fixed template; the letter is
  kept as the values that the template interpolates, in the order of their
  first use.
\<close>

record lba_content =
  lba_reference :: string
  lba_date :: datetime
  lba_client_business :: string
  lba_client_email :: string
  lba_debtor_name :: string
  lba_debtor_address :: string
  lba_amount_owed_gbp :: pyfloat
  lba_statutory_interest_gbp :: pyfloat
  lba_compensation_gbp :: int
  lba_total_claim_gbp :: pyfloat

text \<open>
  The HTML body of the notification is a fixed template too, kept as the
  values it interpolates.
\<close>

record email_html =
  html_client_name :: string
  html_total_claim_gbp :: pyfloat
  html_case_id :: string

text \<open>The arguments of one call of \<^verbatim>\<open>requests.post\<close> to the SendGrid endpoint.\<close>

record mail_request =
  to_email :: string
  subject :: string
  html_body :: email_html

text \<open>The dictionary that \<^verbatim>\<open>handle_intake\<close> returns, a field being the key with the prefix \<open>resp_\<close>.\<close>

record response =
  resp_status :: string
  resp_case_id :: string
  resp_client_email :: string
  resp_amount_owed_gbp :: pyfloat
  resp_statutory_interest_gbp :: pyfloat
  resp_compensation_gbp :: int
  resp_total_claim_gbp :: pyfloat
  resp_lba_generated :: bool
  resp_email_sent :: bool
  resp_message :: string

text \<open>The dictionary that \<^verbatim>\<open>get_case\<close> returns.\<close>

record case_info =
  info_case_id :: string
  info_status :: string
  info_document :: string

subsection \<open>The world outside the process\<close>

text \<open>
  What the handler changes: the files under \<^verbatim>\<open>PDF_OUTPUT_DIR\<close>, the requests
  handed to \<^verbatim>\<open>requests.post\<close>, and the log.
\<close>

datatype log_record = INFO string | WARNING string | ERROR string

record world =
  files :: "string \<rightharpoonup> lba_content"
  posted :: "mail_request list"
  log_lines :: "log_record list"

text \<open>
  What the surroundings answer during one request: the three readings of
  the clock (\<^verbatim>\<open>datetime.now()\<close> in \<^verbatim>\<open>handle_intake\<close>, in
  \<^verbatim>\<open>calculate_statutory_claim\<close> and in \<^verbatim>\<open>generate_lba_pdf\<close>), the string hash of
  the process, whether \<^verbatim>\<open>open\<close> succeeds on a path, and what happens to a
  request to SendGrid.
\<close>

datatype open_outcome = Opened | OpenRaises string

datatype post_outcome =
    ImportRaises string
  | PostRaises string
  | PostResponse nat string

record env =
  now_case_id :: datetime
  now_claim :: datetime
  now_letter :: datetime
  str_hash :: "string \<Rightarrow> int"
  open_file :: "string \<Rightarrow> open_outcome"
  sendgrid :: "mail_request \<Rightarrow> post_outcome"

definition logger :: "log_record \<Rightarrow> world \<Rightarrow> world" where
  "logger r w = w\<lparr>log_lines := log_lines w @ [r]\<rparr>"

subsection \<open>Formatting\<close>

fun str_nat :: "nat \<Rightarrow> string" where
  "str_nat n =
     (if n < 10 then [''0123456789'' ! n]
      else str_nat (n div 10) @ [''0123456789'' ! (n mod 10)])"

declare str_nat.simps [simp del]

definition zfill :: "nat \<Rightarrow> string \<Rightarrow> string" where
  "zfill width s = replicate (width - length s) CHR ''0'' @ s"

text \<open>
  \<^verbatim>\<open>strftime('%Y%m%d')\<close>: month and day have two digits, the year is printed
  without padding (four digits from the year 1000 on).
\<close>

definition strftime_Ymd :: "datetime \<Rightarrow> string" where
  "strftime_Ymd t =
     str_nat (nat (year t)) @ zfill 2 (str_nat (nat (month t))) @ zfill 2 (str_nat (nat (day t)))"

text \<open>\<^verbatim>\<open>f"{n:04d}"\<close> for a non-negative \<open>n\<close>.\<close>

definition format_04d :: "int \<Rightarrow> string" where
  "format_04d n = zfill 4 (str_nat (nat n))"

definition str_exception :: "py_exception \<Rightarrow> string" where
  "str_exception e =
     (case e of OSError msg \<Rightarrow> msg | HTTPException code detail \<Rightarrow> detail | _ \<Rightarrow> [])"

subsection \<open>\<^verbatim>\<open>generate_lba_pdf\<close>\<close>

definition pdf_path :: "string \<Rightarrow> string" where
  "pdf_path case_id = ''/tmp/debtclear_pdfs/'' @ case_id @ ''.txt''"

definition generate_lba_pdf :: "env \<Rightarrow> world \<Rightarrow> case_data \<Rightarrow> (py_exception + string) \<times> world" where
  "generate_lba_pdf e w case_data =
     (let case_id = cd_case_id case_data;
          today = now_letter e;
          lba_content =
            \<lparr>lba_reference = case_id,
             lba_date = today,
             lba_client_business = cd_client_business case_data,
             lba_client_email = cd_client_email case_data,
             lba_debtor_name = cd_debtor_name case_data,
             lba_debtor_address = cd_debtor_address case_data,
             lba_amount_owed_gbp = cd_amount_owed_gbp case_data,
             lba_statutory_interest_gbp = cd_statutory_interest_gbp case_data,
             lba_compensation_gbp = cd_compensation_gbp case_data,
             lba_total_claim_gbp = cd_total_claim_gbp case_data\<rparr>;
          txt_path = pdf_path case_id
      in case open_file e txt_path of
           OpenRaises msg \<Rightarrow> (Inl (OSError msg), w)
         | Opened \<Rightarrow>
             (Inr txt_path,
              logger (INFO (''LBA generated: '' @ txt_path))
                (w\<lparr>files := (files w)(txt_path \<mapsto> lba_content)\<rparr>)))"

subsection \<open>\<^verbatim>\<open>send_email_via_sendgrid\<close>\<close>

text \<open>
  The whole body is inside \<^verbatim>\<open>try\<close> ... \<^verbatim>\<open>except Exception\<close>: a failing import of
  \<^verbatim>\<open>requests\<close>, a failing \<^verbatim>\<open>requests.post\<close> and a status code other than 200, 201
  or 202 all end in \<^verbatim>\<open>return False\<close>.
\<close>

definition send_email_via_sendgrid :: "env \<Rightarrow> world \<Rightarrow> string \<Rightarrow> string \<Rightarrow> email_html \<Rightarrow> bool \<times> world" where
  "send_email_via_sendgrid e w to_addr subj body =
     (let payload = \<lparr>to_email = to_addr, subject = subj, html_body = body\<rparr>
      in case sendgrid e payload of
           ImportRaises msg \<Rightarrow> (False, logger (ERROR (''Email send failed: '' @ msg)) w)
         | PostRaises msg \<Rightarrow>
             (False,
              logger (ERROR (''Email send failed: '' @ msg)) (w\<lparr>posted := posted w @ [payload]\<rparr>))
         | PostResponse status_code text \<Rightarrow>
             (if status_code \<in> set [200, 201, 202]
              then (True,
                    logger (INFO (''Email sent to '' @ to_addr)) (w\<lparr>posted := posted w @ [payload]\<rparr>))
              else (False,
                    logger (ERROR (''SendGrid error: '' @ str_nat status_code @ '' - '' @ text))
                      (w\<lparr>posted := posted w @ [payload]\<rparr>))))"

subsection \<open>\<^verbatim>\<open>handle_intake\<close> and \<^verbatim>\<open>get_case\<close>\<close>

definition make_case_id :: "env \<Rightarrow> string \<Rightarrow> string" where
  "make_case_id e email =
     ''DC-'' @ strftime_Ymd (now_case_id e) @ ''-'' @ format_04d (\<bar>str_hash e email\<bar> mod 10000)"

definition handle_intake :: "env \<Rightarrow> world \<Rightarrow> submission \<Rightarrow> (py_exception + response) \<times> world" where
  "handle_intake e w submission =
     (let w1 = logger (INFO (''Intake submission: '' @ client_email submission)) w
      in if debtor_type submission \<noteq> ''business''
         then (Inl (HTTPException 422
                 ''DebtClear processes B2B (business-to-business) debt only. Consumer debt uses a different legal framework.''),
               w1)
         else if \<not> dpa_accepted submission
         then (Inl (HTTPException 422 ''Data Processing Agreement must be accepted to proceed.''), w1)
         else
           (let case_id = make_case_id e (client_email submission)
            in case calculate_statutory_claim (now_claim e) (amount_owed_gbp submission)
                      (due_date submission) of
                 Inl ex \<Rightarrow> (Inl ex, w1)
               | Inr claim_calc \<Rightarrow>
                   (let case_data =
                          \<lparr>cd_case_id = case_id,
                           cd_client_email = client_email submission,
                           cd_client_name = client_name submission,
                           cd_client_business = client_business submission,
                           cd_debtor_name = debtor_name submission,
                           cd_debtor_address = debtor_address submission,
                           cd_amount_owed_gbp = amount_owed_gbp submission,
                           cd_invoice_date = invoice_date submission,
                           cd_due_date = due_date submission,
                           cd_description_of_debt = description_of_debt submission,
                           cd_statutory_interest_gbp = statutory_interest_gbp claim_calc,
                           cd_compensation_gbp = compensation_gbp claim_calc,
                           cd_total_claim_gbp = total_claim_gbp claim_calc,
                           cd_days_overdue = days_overdue claim_calc\<rparr>
                    in case generate_lba_pdf e w1 case_data of
                         (Inl ex, w2) \<Rightarrow>
                           (Inl (HTTPException 500 ''LBA generation failed''),
                            logger (ERROR (''PDF generation failed: '' @ str_exception ex)) w2)
                       | (Inr lba_path, w2) \<Rightarrow>
                           (let email_body =
                                  \<lparr>html_client_name = client_name submission,
                                   html_total_claim_gbp = cd_total_claim_gbp case_data,
                                   html_case_id = case_id\<rparr>;
                                (email_sent, w3) =
                                  send_email_via_sendgrid e w2 (client_email submission)
                                    (''Your Letter Before Action - '' @ case_id) email_body;
                                w4 = (if \<not> email_sent
                                      then logger (WARNING ''Email send failed but case processed'') w3
                                      else w3)
                            in (Inr \<lparr>resp_status = ''success'',
                                     resp_case_id = case_id,
                                     resp_client_email = client_email submission,
                                     resp_amount_owed_gbp = amount_owed_gbp submission,
                                     resp_statutory_interest_gbp = cd_statutory_interest_gbp case_data,
                                     resp_compensation_gbp = cd_compensation_gbp case_data,
                                     resp_total_claim_gbp = cd_total_claim_gbp case_data,
                                     resp_lba_generated = True,
                                     resp_email_sent = email_sent,
                                     resp_message =
                                       ''Case '' @ case_id
                                         @ '' created successfully. LBA prepared and email sent.''\<rparr>,
                                w4)))))"

definition get_case :: "world \<Rightarrow> string \<Rightarrow> py_exception + case_info" where
  "get_case w case_id =
     (let pdf_file = pdf_path case_id
      in if pdf_file \<notin> dom (files w) then Inl (HTTPException 404 ''Case not found'')
         else Inr \<lparr>info_case_id = case_id, info_status = ''lba_prepared'', info_document = pdf_file\<rparr>)"

section \<open>Example data\<close>

text \<open>A reading of the clock on 24 February 2024, and the due date forty days before it.\<close>

abbreviation clock_2024_02_24 :: datetime where
  "clock_2024_02_24 \<equiv>
     \<lparr>year = 2024, month = 2, day = 24, hour = 13, minute = 5, second = 0, microsecond = 7\<rparr>"

abbreviation date_2024_01_15 :: datetime where
  "date_2024_01_15 \<equiv>
     \<lparr>year = 2024, month = 1, day = 15, hour = 0, minute = 0, second = 0, microsecond = 0\<rparr>"

abbreviation clock_2024_02_25 :: datetime where
  "clock_2024_02_25 \<equiv>
     \<lparr>year = 2024, month = 2, day = 25, hour = 13, minute = 5, second = 0, microsecond = 7\<rparr>"

text \<open>
  A world with no document, a process whose clock stays on 24 February
  2024, whose \<^verbatim>\<open>open\<close> succeeds and whose requests SendGrid accepts, the same
  process with a transport that fails, and two submissions of one client.
\<close>

definition example_world :: world where
  "example_world = \<lparr>files = Map.empty, posted = [], log_lines = []\<rparr>"

definition example_env :: env where
  "example_env =
     \<lparr>now_case_id = clock_2024_02_24,
      now_claim = clock_2024_02_24,
      now_letter = clock_2024_02_24,
      str_hash = (\<lambda>s. 31 * int (length s) - 1000),
      open_file = (\<lambda>path. Opened),
      sendgrid = (\<lambda>request. PostResponse 202 [])\<rparr>"

definition failing_mail_env :: env where
  "failing_mail_env = example_env\<lparr>sendgrid := (\<lambda>request. PostRaises ''Connection timed out'')\<rparr>"

definition example_submission :: submission where
  "example_submission =
     \<lparr>client_email = ''client@example.com'',
      client_name = ''Alex Client'',
      client_business = ''Client Ltd'',
      debtor_name = ''Debtor One Ltd'',
      debtor_address = ''1 High Street'',
      debtor_type = ''business'',
      amount_owed_gbp = Fin 5000,
      invoice_date = ''2023-12-15'',
      due_date = ''2024-01-15'',
      description_of_debt = ''Invoice 17'',
      dpa_accepted = True\<rparr>"

definition second_submission :: submission where
  "second_submission =
     example_submission\<lparr>debtor_name := ''Debtor Two Ltd'',
                         debtor_address := ''2 Low Road'',
                         description_of_debt := ''Invoice 18''\<rparr>"

section \<open>Properties of the floating-point operations\<close>

lemma round_half_even_bounds:
  "of_int (round_half_even x) - 1/2 \<le> x \<and> x \<le> of_int (round_half_even x) + 1/2"
proof -
  have "of_int \<lfloor>x\<rfloor> \<le> x" "x < of_int \<lfloor>x\<rfloor> + 1" by linarith+
  then show ?thesis
    unfolding round_half_even_def Let_def by (auto simp: not_less; linarith)
qed

lemma round_half_even_of_int [simp]: "round_half_even (of_int n) = n"
  by (simp add: round_half_even_def)

lemma round_half_even_le: "x \<le> of_int n \<Longrightarrow> round_half_even x \<le> n"
proof -
  assume a: "x \<le> of_int n"
  then have f: "\<lfloor>x\<rfloor> \<le> n" by (simp add: floor_le_iff)
  show ?thesis
  proof (cases "\<lfloor>x\<rfloor> = n")
    case True
    then have "of_int n \<le> x" by (metis of_int_floor_le)
    with a have "x = of_int n" by simp
    then show ?thesis by simp
  next
    case False
    with f have "\<lfloor>x\<rfloor> + 1 \<le> n" by simp
    then show ?thesis unfolding round_half_even_def Let_def by auto
  qed
qed

lemma round_half_even_ge: "of_int n \<le> x \<Longrightarrow> n \<le> round_half_even x"
proof -
  assume "of_int n \<le> x"
  then have "n \<le> \<lfloor>x\<rfloor>" by (simp add: le_floor_iff)
  then show ?thesis unfolding round_half_even_def Let_def by auto
qed

lemma floor_log2_bounds:
  assumes "0 < x"
  shows "2 powi (floor_log2 x) \<le> x \<and> x < 2 powi (floor_log2 x + 1)"
proof (cases "1 \<le> x")
  case True
  define n where "n = \<lfloor>x\<rfloor>"
  have n1: "1 \<le> n" using True by (simp add: n_def le_floor_iff)
  then have b: "2 ^ nat (bitlen n - 1) \<le> n" "n < 2 ^ nat (bitlen n)"
    using bitlen_bounds[of n] by auto
  have b1: "1 \<le> bitlen n" using n1 bitlen_eq_zero_iff[of n] bitlen_nonneg[of n] by linarith
  have fl: "floor_log2 x = bitlen n - 1" using True by (simp add: floor_log2_def n_def)
  have "(2::rat) powi (bitlen n - 1) = of_int (2 ^ nat (bitlen n - 1))"
    using b1 by (simp add: power_int_def)
  also have "\<dots> \<le> of_int n" using b(1) by (simp only: of_int_le_iff)
  also have "\<dots> \<le> x" by (simp add: n_def)
  finally have lo: "2 powi (bitlen n - 1) \<le> x" .
  have "x < of_int (n + 1)" unfolding n_def by linarith
  also have "\<dots> \<le> of_int (2 ^ nat (bitlen n))" using b(2) by (simp only: of_int_le_iff)
  also have "\<dots> = (2::rat) powi (bitlen n)" using b1 by (simp add: power_int_def)
  finally have "x < 2 powi (bitlen n - 1 + 1)" by simp
  with lo fl show ?thesis by simp
next
  case False
  define m where "m = \<lceil>1 / x\<rceil>"
  define k where "k = bitlen (m - 1)"
  have y: "1 < 1 / x" using False assms by simp
  then have m2: "2 \<le> m" unfolding m_def by (simp add: le_ceiling_iff)
  then have b: "2 ^ nat (k - 1) \<le> m - 1" "m - 1 < 2 ^ nat k"
    using bitlen_bounds[of "m - 1"] by (auto simp: k_def)
  have k1: "1 \<le> k" using m2 bitlen_eq_zero_iff[of "m - 1"] bitlen_nonneg[of "m - 1"]
    unfolding k_def by linarith
  have fl: "floor_log2 x = - k" using False by (simp add: floor_log2_def m_def k_def)
  have "1 / x \<le> of_int m" unfolding m_def by simp
  also have "\<dots> \<le> of_int (2 ^ nat k)" using b(2) by (simp only: of_int_le_iff)
  also have "\<dots> = (2::rat) powi k" using k1 by (simp add: power_int_def)
  finally have "1 / x \<le> 2 powi k" .
  then have "1 \<le> 2 powi k * x" using assms by (simp add: field_simps)
  then have lo: "2 powi (- k) \<le> x" by (simp add: power_int_minus field_simps)
  have "(2::rat) powi (k - 1) = of_int (2 ^ nat (k - 1))" using k1 by (simp add: power_int_def)
  also have "\<dots> \<le> of_int (m - 1)" using b(1) by (simp only: of_int_le_iff)
  also have "\<dots> < 1 / x" unfolding m_def by linarith
  finally have "2 powi (k - 1) < 1 / x" .
  moreover define P where "P = (2::rat) powi (k - 1)"
  moreover have "0 < P" by (simp add: P_def)
  ultimately have "x < inverse P" using assms by (simp add: field_simps)
  moreover have "(2::rat) powi (- k + 1) = inverse P"
    using power_int_minus[of "2::rat" "k - 1"] by (simp add: P_def)
  ultimately have "x < 2 powi (- k + 1)" by simp
  with lo fl show ?thesis by simp
qed

lemma floor_log2_unique:
  assumes "2 powi e \<le> x" "x < 2 powi (e + 1)"
  shows "floor_log2 x = e"
proof -
  have x0: "0 < x" using assms(1) zero_less_power_int[of "2::rat" e] by linarith
  note b = floor_log2_bounds[OF x0]
  have "(2::rat) powi e < 2 powi (floor_log2 x + 1)" using assms(1) b by linarith
  then have 1: "e < floor_log2 x + 1"
    by (metis not_less power_int_increasing one_le_numeral)
  have "(2::rat) powi (floor_log2 x) < 2 powi (e + 1)" using assms(2) b by linarith
  then have 2: "floor_log2 x < e + 1"
    by (metis not_less power_int_increasing one_le_numeral)
  from 1 2 show ?thesis by simp
qed

lemma two_powi_le_imp_le: "(2::rat) powi a \<le> 2 powi b \<Longrightarrow> a \<le> b"
  by (metis not_less power_int_strict_increasing one_less_numeral_iff semiring_norm(76))

lemma two_powi_less_imp_less: "(2::rat) powi a < 2 powi b \<Longrightarrow> a < b"
  by (metis not_less power_int_increasing one_le_numeral)

lemma two_powi_of_int: "0 \<le> n \<Longrightarrow> (2::rat) powi n = of_int (2 ^ nat n)"
  by (simp add: power_int_def)

lemma round_double_zero [simp]: "round_double 0 = 0"
  by (simp add: round_double_def)


lemma round_double_eval:
  assumes "2 powi e \<le> \<bar>x\<bar>" "\<bar>x\<bar> < 2 powi (e + 1)"
  shows "round_double x =
           of_int (round_half_even (x / 2 powi (max (e - 52) (- 1074)))) * 2 powi (max (e - 52) (- 1074))"
proof -
  have "0 < (2::rat) powi e" by simp
  then have "0 < \<bar>x\<bar>" using assms(1) by linarith
  then have "x \<noteq> 0" by simp
  moreover have "floor_log2 \<bar>x\<bar> = e" using assms by (rule floor_log2_unique)
  ultimately show ?thesis by (simp add: round_double_def Let_def)
qed

lemma round_double_abs_le:
  assumes "\<bar>x\<bar> \<le> 2 powi k" "- 1074 \<le> k"
  shows "\<bar>round_double x\<bar> \<le> 2 powi k"
proof (cases "x = 0")
  case True
  then show ?thesis by simp
next
  case False
  define e where "e = floor_log2 \<bar>x\<bar>"
  define q where "q = max (e - 52) (- 1074)"
  define N :: int where "N = 2 ^ nat (k - q)"
  define Q :: rat where "Q = 2 powi q"
  have Q0: "0 < Q" by (simp add: Q_def)
  have "2 powi e \<le> \<bar>x\<bar>" using False floor_log2_bounds[of "\<bar>x\<bar>"] by (simp add: e_def)
  then have "(2::rat) powi e \<le> 2 powi k" using assms(1) by linarith
  then have "e \<le> k" by (rule two_powi_le_imp_le)
  then have qk: "q \<le> k" using assms(2) by (simp add: q_def)
  have "(2::rat) powi k = 2 powi (k - q) * 2 powi q"
    using power_int_add[of "2::rat" "k - q" q] by simp
  also have "(2::rat) powi (k - q) = of_int N"
    using qk by (simp add: two_powi_of_int N_def)
  finally have kN: "2 powi k = of_int N * Q" by (simp add: Q_def)
  have "\<bar>x\<bar> / Q \<le> of_int N" using assms(1) kN Q0 by (simp add: field_simps)
  then have "x / Q \<le> of_int N" "of_int (- N) \<le> x / Q"
    using Q0 by (simp_all add: field_simps abs_le_iff)
  then have "round_half_even (x / Q) \<le> N" "- N \<le> round_half_even (x / Q)"
    using round_half_even_le round_half_even_ge by blast+
  then have "\<bar>round_half_even (x / Q)\<bar> \<le> N" by simp
  then have "\<bar>of_int (round_half_even (x / Q)) :: rat\<bar> \<le> of_int N"
    by (metis of_int_abs of_int_le_iff)
  then have "\<bar>of_int (round_half_even (x / Q)) * Q\<bar> \<le> of_int N * Q"
    using Q0 by (simp add: abs_mult)
  moreover have "round_double x = of_int (round_half_even (x / Q)) * Q"
    using False by (simp add: round_double_def Let_def e_def q_def Q_def)
  ultimately show ?thesis using kN by simp
qed

lemma round_double_error:
  assumes "\<bar>x\<bar> \<le> 2 powi k" "- 1021 \<le> k"
  shows "\<bar>round_double x - x\<bar> \<le> 2 powi (k - 54)"
proof (cases "x = 0")
  case True
  then show ?thesis by simp
next
  case False
  define e where "e = floor_log2 \<bar>x\<bar>"
  define q where "q = max (e - 52) (- 1074)"
  define Q :: rat where "Q = 2 powi q"
  define r where "r = round_half_even (x / Q)"
  have Q0: "0 < Q" by (simp add: Q_def)
  have rd: "round_double x = of_int r * Q"
    using False by (simp add: round_double_def Let_def e_def q_def Q_def r_def)
  have eb: "2 powi e \<le> \<bar>x\<bar>" "\<bar>x\<bar> < 2 powi (e + 1)"
    using False floor_log2_bounds[of "\<bar>x\<bar>"] by (simp_all add: e_def)
  show ?thesis
  proof (cases "\<bar>x\<bar> = 2 powi k")
    case True
    have "floor_log2 \<bar>x\<bar> = k"
      by (rule floor_log2_unique) (simp_all add: True power_int_strict_increasing)
    then have "q = k - 52" using assms(2) by (simp add: q_def e_def)
    then have "(2::rat) powi k = 2 powi 52 * Q"
      using power_int_add[of "2::rat" 52 "k - 52"] by (simp add: Q_def)
    then have "\<bar>x\<bar> / Q = of_int (2 ^ 52)" using True Q0 by simp
    then have "x / Q = of_int (2 ^ 52) \<or> x / Q = of_int (- (2 ^ 52))"
      using Q0 by (auto simp: abs_if field_simps split: if_splits)
    then have "of_int r = x / Q" unfolding r_def by (metis round_half_even_of_int)
    then have "round_double x = x" using rd Q0 by simp
    then show ?thesis by simp
  next
    case ne: False
    then have "\<bar>x\<bar> < 2 powi k" using assms(1) by simp
    then have "(2::rat) powi e < 2 powi k" using eb(1) by linarith
    then have "e < k" by (rule two_powi_less_imp_less)
    then have "q \<le> k - 53" using assms(2) by (simp add: q_def)
    then have "q - 1 \<le> k - 54" by simp
    then have le: "(2::rat) powi (q - 1) \<le> 2 powi (k - 54)"
      by (simp add: power_int_increasing)
    have "\<bar>of_int r - x / Q\<bar> \<le> 1 / 2"
      using round_half_even_bounds[of "x / Q"] unfolding r_def by linarith
    then have "\<bar>of_int r - x / Q\<bar> * Q \<le> 1 / 2 * Q"
      using Q0 by (simp add: mult_right_mono)
    moreover have "\<bar>of_int r - x / Q\<bar> * Q = \<bar>of_int r * Q - x\<bar>"
      using Q0 by (simp add: abs_mult[symmetric] field_simps flip: abs_of_pos)
    moreover have "1 / 2 * Q = 2 powi (q - 1)"
      using power_int_diff[of "2::rat" q 1] by (simp add: Q_def)
    ultimately show ?thesis using rd le by simp
  qed
qed

section \<open>Properties of dates, parsing and the claim calculation\<close>

lemma strptime_Inr:
  assumes "strptime s = Inr d"
  shows "valid_date (year d) (month d) (day d) \<and> hour d = 0 \<and> minute d = 0 \<and> second d = 0 \<and> microsecond d = 0"
  using assms by (auto simp: strptime_def split: list.splits prod.splits if_splits)

lemma strptime_Inl: "strptime s = Inl e \<Longrightarrow> e = ValueError"
  by (auto simp: strptime_def split: list.splits prod.splits if_splits)

lemma timedelta_days_midnight:
  assumes "valid_datetime a" "hour b = 0" "minute b = 0" "second b = 0" "microsecond b = 0"
  shows "timedelta_days a b = toordinal a - toordinal b"
proof -
  define r where "r = (second a + minute a * 60 + hour a * 3600) * 1000000 + microsecond a"
  have r: "0 \<le> r" "r < 86400000000"
    using assms(1) unfolding r_def valid_datetime_def by auto
  have "timedelta_days a b = ((toordinal a - toordinal b) * 86400000000 + r) div 86400000000"
    using assms(2-) by (simp add: timedelta_days_def Let_def r_def algebra_simps)
  also have "\<dots> = toordinal a - toordinal b"
    using r by simp
  finally show ?thesis .
qed

lemma month_cases:
  assumes "1 \<le> m" "m \<le> (12::int)"
  shows "m = 1 \<or> m = 2 \<or> m = 3 \<or> m = 4 \<or> m = 5 \<or> m = 6 \<or> m = 7 \<or> m = 8 \<or> m = 9 \<or> m = 10 \<or> m = 11 \<or> m = 12"
  using assms by arith

lemma days_before_month_bounds:
  assumes "1 \<le> m" "m \<le> 12"
  shows "0 \<le> days_before_month y m \<and> days_before_month y m \<le> 335"
  using month_cases[OF assms] by (auto simp: days_before_month_def)

lemma days_in_month_le: 
  assumes "1 \<le> m" "m \<le> 12"
  shows "days_in_month y m \<le> 31"
  using month_cases[OF assms] by (auto simp: days_in_month_def)

lemma days_before_year_bounds:
  assumes "1 \<le> y" "y \<le> 9999"
  shows "0 \<le> days_before_year y \<and> days_before_year y \<le> 3651694"
proof -
  define z where "z = y - 1"
  have z: "0 \<le> z" "z \<le> 9998" using assms by (simp_all add: z_def)
  have a: "0 \<le> z div 4" "z div 4 \<le> 2499" using z by linarith+
  have b: "0 \<le> z div 100" "z div 100 \<le> z" using z by linarith+
  have c: "0 \<le> z div 400" "z div 400 \<le> 24" using z by linarith+
  have "days_before_year y = z * 365 + z div 4 - z div 100 + z div 400"
    by (simp add: days_before_year_def z_def Let_def)
  then show ?thesis using z a b c by linarith
qed

lemma toordinal_bounds:
  assumes "valid_date (year t) (month t) (day t)"
  shows "1 \<le> toordinal t \<and> toordinal t \<le> 3652060"
proof -
  have y: "1 \<le> year t" "year t \<le> 9999" and m: "1 \<le> month t" "month t \<le> 12"
    and d: "1 \<le> day t" "day t \<le> days_in_month (year t) (month t)"
    using assms by (auto simp: valid_date_def)
  note days_before_year_bounds[OF y] days_before_month_bounds[OF m, of "year t"]
    days_in_month_le[OF m, of "year t"]
  then show ?thesis using d unfolding toordinal_def by linarith
qed

lemma round_half_even_eqI:
  assumes "\<bar>x - of_int n\<bar> < 1 / 2"
  shows "round_half_even x = n"
proof -
  have "\<bar>(of_int (round_half_even x) :: rat) - of_int n\<bar> < 1"
    using round_half_even_bounds[of x] assms by linarith
  then have "\<bar>(of_int (round_half_even x - n) :: rat)\<bar> < of_int 1" by simp
  then have "\<bar>round_half_even x - n\<bar> < 1"
    by (metis of_int_abs of_int_less_iff)
  then show ?thesis by simp
qed

lemma round_double_evalI:
  assumes "2 powi e \<le> \<bar>x\<bar>" "\<bar>x\<bar> < 2 powi (e + 1)" "q = max (e - 52) (- 1074)"
    and "\<bar>x / 2 powi q - of_int n\<bar> < 1 / 2"
  shows "round_double x = of_int n * 2 powi q"
  using round_double_eval[OF assms(1,2)] assms(3) round_half_even_eqI[OF assms(4)] by simp

lemma annual_rate_eq: "annual_rate = 2296835809958953 / 18014398509481984"
  unfolding annual_rate_def
  by (subst round_double_evalI[where e = "-3" and q = "-55" and n = 4593671619917906]) simp_all

lemma daily_rate_eq: "daily_rate = 3221862834791737 / 9223372036854775808"
  unfolding daily_rate_def annual_rate_eq
  by (subst round_double_evalI[where e = "-12" and q = "-64" and n = 6443725669583474]) simp_all

lemma to_float_eq_Fin: "to_float x = Fin y \<Longrightarrow> y = round_double x"
  by (simp add: to_float_def Let_def split: if_splits)

lemma to_float_bounded:
  assumes "\<bar>x\<bar> \<le> 2 powi k" "- 1074 \<le> k" "k \<le> 1023"
  shows "to_float x = Fin (round_double x)"
proof -
  have "\<bar>round_double x\<bar> \<le> 2 powi k" using assms(1,2) by (rule round_double_abs_le)
  also have "(2::rat) powi k \<le> 2 powi 1023" by (rule power_int_increasing[OF assms(3)]) simp
  also have "\<dots> < 2 ^ 1024" by simp
  finally have "\<bar>round_double x\<bar> < 2 ^ 1024" .
  then show ?thesis by (simp add: to_float_def Let_def abs_less_iff not_le)
qed

lemma round_double_of_int:
  assumes "\<bar>n\<bar> \<le> 2 ^ 53"
  shows "round_double (of_int n) = of_int n"
proof (cases "n = 0")
  case True
  then show ?thesis by simp
next
  case False
  define e where "e = floor_log2 \<bar>of_int n\<bar>"
  define q where "q = max (e - 52) (- 1074)"
  have "2 powi e \<le> \<bar>of_int n :: rat\<bar>"
    using False floor_log2_bounds[of "\<bar>of_int n\<bar>"] by (simp add: e_def)
  also have "\<bar>of_int n :: rat\<bar> \<le> 2 powi 53"
    using assms by (metis of_int_abs of_int_le_iff of_int_numeral of_int_power power_int_numeral)
  finally have "e \<le> 53" by (rule two_powi_le_imp_le)
  show ?thesis
  proof (cases "e = 53")
    case True
    then have "(2::rat) powi 53 \<le> \<bar>of_int n\<bar>"
      using \<open>2 powi e \<le> \<bar>of_int n :: rat\<bar>\<close> by simp
    then have "\<bar>of_int n :: rat\<bar> = 2 ^ 53" using \<open>\<bar>of_int n :: rat\<bar> \<le> 2 powi 53\<close> by simp
    then have "(of_int n :: rat) = 2 ^ 53 \<or> (of_int n :: rat) = - (2 ^ 53)" by (auto simp: abs_if split: if_splits)
    moreover have "round_double (2 ^ 53) = 2 ^ 53"
      by (subst round_double_evalI[where e = 53 and q = 1 and n = "2 ^ 52"]) simp_all
    moreover have "round_double (- (2 ^ 53)) = - (2 ^ 53)"
      by (subst round_double_evalI[where e = 53 and q = 1 and n = "- (2 ^ 52)"]) simp_all
    ultimately show ?thesis by auto
  next
    case ne: False
    with \<open>e \<le> 53\<close> have "q \<le> 0" by (simp add: q_def)
    then have "(1::rat) / 2 powi q = of_int (2 ^ nat (- q))"
      using power_int_minus[of "2::rat" q] by (simp add: two_powi_of_int field_simps)
    have "of_int n / 2 powi q = (of_int n :: rat) * (1 / 2 powi q)" by simp
    also have "\<dots> = of_int n * of_int (2 ^ nat (- q))"
      by (simp only: \<open>(1::rat) / 2 powi q = of_int (2 ^ nat (- q))\<close>)
    finally have "of_int n / 2 powi q = (of_int (n * 2 ^ nat (- q)) :: rat)" by simp
    then have "round_half_even (of_int n / 2 powi q) = n * 2 ^ nat (- q)"
      by (metis round_half_even_of_int)
    moreover have "round_double (of_int n) = of_int (round_half_even (of_int n / 2 powi q)) * 2 powi q"
      using False by (simp add: round_double_def Let_def e_def q_def)
    ultimately have "round_double (of_int n) = of_int n * (of_int (2 ^ nat (- q)) * 2 powi q)"
      by simp
    also have "(of_int (2 ^ nat (- q)) :: rat) * 2 powi q = 1"
      using \<open>(1::rat) / 2 powi q = of_int (2 ^ nat (- q))\<close>[symmetric] by simp
    finally show ?thesis by simp
  qed
qed

lemma float_of_int_small: "\<bar>n\<bar> \<le> 2 ^ 53 \<Longrightarrow> float_of_int n = Fin (of_int n)"
proof -
  assume a: "\<bar>n\<bar> \<le> 2 ^ 53"
  have "\<bar>of_int n :: rat\<bar> \<le> 2 powi 53"
    using a by (metis of_int_abs of_int_le_iff of_int_numeral of_int_power power_int_numeral)
  then have "to_float (of_int n) = Fin (round_double (of_int n))"
    by (rule to_float_bounded) simp_all
  then show ?thesis using round_double_of_int[OF a] by (simp add: float_of_int_def)
qed

lemma fmul_Fin_left: "fmul a (Fin b) = Fin c \<Longrightarrow> \<exists>a'. a = Fin a' \<and> c = round_double (a' * b)"
  by (cases a) (auto dest: to_float_eq_Fin split: if_splits)

lemma py_round_Inr: "py_round x = Inr n \<Longrightarrow> \<exists>c. x = Fin c \<and> n = round_half_even c"
  by (cases x) auto

lemma int_truediv_100_Inr:
  assumes "int_truediv n 100 = Inr y"
  shows "y = Fin (round_double (of_int n / 100))"
proof (cases "to_float (of_int n / 100)")
  case (Fin z)
  then have "z = round_double (of_int n / 100)" by (rule to_float_eq_Fin)
  then show ?thesis using assms Fin by (simp add: int_truediv_def)
qed (use assms in \<open>simp_all add: int_truediv_def\<close>)

lemma days_overdue_bounds:
  assumes "valid_datetime now" "strptime s = Inr due"
  shows "timedelta_days now due = toordinal now - toordinal due"
    and "0 \<le> max 0 (timedelta_days now due)" 
    and "max 0 (timedelta_days now due) \<le> 2 ^ 22"
proof -
  note d = strptime_Inr[OF assms(2)]
  show 1: "timedelta_days now due = toordinal now - toordinal due"
    using assms(1) d by (intro timedelta_days_midnight) simp_all
  have "valid_date (year now) (month now) (day now)" using assms(1) by (simp add: valid_datetime_def)
  from toordinal_bounds[OF this] toordinal_bounds[of due] d
  have "toordinal now - toordinal due \<le> 3652060" by linarith
  then show "max 0 (timedelta_days now due) \<le> 2 ^ 22" using 1 by simp
  show "0 \<le> max 0 (timedelta_days now due)" by simp
qed

lemma daily_rate_bounds: "0 < daily_rate" "daily_rate \<le> 2 powi (- 11)"
  by (simp_all add: daily_rate_eq)

lemma calc_unfold:
  assumes "valid_datetime now" "strptime s = Inr due"
  shows "calculate_statutory_claim now a s =
     (case py_round (fmul (fmul (fmul a (Fin daily_rate))
                       (Fin (of_int (max 0 (toordinal now - toordinal due))))) (Fin 100)) of
        Inl e \<Rightarrow> Inl e
      | Inr cents \<Rightarrow>
          (case int_truediv cents 100 of
             Inl e \<Rightarrow> Inl e
           | Inr interest \<Rightarrow>
               Inr \<lparr>days_overdue = max 0 (toordinal now - toordinal due),
                    statutory_interest_gbp = interest,
                    compensation_gbp =
                      (if flt_int a 1000 then 40 else if flt_int a 10000 then 70 else 100),
                    total_claim_gbp =
                      fadd (fadd a interest)
                        (float_of_int
                          (if flt_int a 1000 then 40 else if flt_int a 10000 then 70 else 100))\<rparr>))"
proof -
  note b = days_overdue_bounds[OF assms]
  have n: "float_of_int (max 0 (toordinal now - toordinal due)) =
             Fin (of_int (max 0 (toordinal now - toordinal due)))"
    using b(2,3) unfolding b(1) by (intro float_of_int_small) simp
  have h: "float_of_int 100 = Fin 100"
    using float_of_int_small[of 100] by simp
  show ?thesis
    by (simp add: calculate_statutory_claim_def assms(2) Let_def b(1) n h split: sum.splits)
qed

lemma calc_Inr:
  assumes "valid_datetime now" "strptime s = Inr due"
    and "calculate_statutory_claim now (Fin p) s = Inr r"
  shows "days_overdue r = max 0 (toordinal now - toordinal due)"
    and "statutory_interest_gbp r = Fin (binary64_interest p (days_overdue r))"
    and "compensation_gbp r = spec_compensation p"
    and "total_claim_gbp r =
           fadd (fadd (Fin p) (statutory_interest_gbp r)) (float_of_int (compensation_gbp r))"
proof -
  define n where "n = max 0 (toordinal now - toordinal due)"
  define X where "X = fmul (fmul (fmul (Fin p) (Fin daily_rate)) (Fin (of_int n))) (Fin 100)"
  note u = calc_unfold[OF assms(1,2), of "Fin p", folded n_def, folded X_def]
  from assms(3) u obtain cents where c: "py_round X = Inr cents"
    by (cases "py_round X") simp_all
  from assms(3) u c obtain interest where i: "int_truediv cents 100 = Inr interest"
    by (cases "int_truediv cents 100") simp_all
  from assms(3) u c i have r:
    "r = \<lparr>days_overdue = n, statutory_interest_gbp = interest,
          compensation_gbp = (if flt_int (Fin p) 1000 then 40 else if flt_int (Fin p) 10000 then 70 else 100),
          total_claim_gbp = fadd (fadd (Fin p) interest)
             (float_of_int (if flt_int (Fin p) 1000 then 40 else if flt_int (Fin p) 10000 then 70 else 100))\<rparr>"
    by simp
  from py_round_Inr[OF c] obtain x3 where
    x3: "X = Fin x3" and cents: "cents = round_half_even x3" by blast
  from fmul_Fin_left[OF x3[unfolded X_def]] obtain x2 where
    x2: "fmul (fmul (Fin p) (Fin daily_rate)) (Fin (of_int n)) = Fin x2"
    and x3': "x3 = round_double (x2 * 100)" by blast
  from fmul_Fin_left[OF x2] obtain x1 where
    x1: "fmul (Fin p) (Fin daily_rate) = Fin x1"
    and x2': "x2 = round_double (x1 * of_int n)" by blast
  from fmul_Fin_left[OF x1] have x1': "x1 = round_double (p * daily_rate)" by simp
  show "days_overdue r = max 0 (toordinal now - toordinal due)"
    using r by (simp add: n_def)
  show "statutory_interest_gbp r = Fin (binary64_interest p (days_overdue r))"
    using r int_truediv_100_Inr[OF i] cents x3' x2' x1'
    by (simp add: binary64_interest_def)
  show "compensation_gbp r = spec_compensation p"
    using r by (simp add: spec_compensation_def)
  show "total_claim_gbp r =
           fadd (fadd (Fin p) (statutory_interest_gbp r)) (float_of_int (compensation_gbp r))"
    using r by simp
qed

lemma abs_mult_le_powi:
  assumes "\<bar>a\<bar> \<le> 2 powi i" "\<bar>b\<bar> \<le> 2 powi j"
  shows "\<bar>a * b\<bar> \<le> (2::rat) powi (i + j)"
proof -
  have "\<bar>a\<bar> * \<bar>b\<bar> \<le> 2 powi i * 2 powi j"
    using assms by (intro mult_mono) simp_all
  then show ?thesis by (simp add: abs_mult power_int_add)
qed

lemma fmul_bounded:
  assumes "\<bar>a\<bar> \<le> 2 powi i" "\<bar>b\<bar> \<le> 2 powi j" "- 1074 \<le> i + j" "i + j \<le> 1023"
  shows "fmul (Fin a) (Fin b) = Fin (round_double (a * b))"
    and "\<bar>round_double (a * b)\<bar> \<le> 2 powi (i + j)"
proof -
  note ab = abs_mult_le_powi[OF assms(1,2)]
  show "fmul (Fin a) (Fin b) = Fin (round_double (a * b))"
    using to_float_bounded[OF ab assms(3,4)] by simp
  show "\<bar>round_double (a * b)\<bar> \<le> 2 powi (i + j)"
    using ab assms(3) by (rule round_double_abs_le)
qed

lemma round_half_even_abs_le:
  assumes "\<bar>x\<bar> \<le> 2 powi m" "0 \<le> m"
  shows "\<bar>of_int (round_half_even x) :: rat\<bar> \<le> 2 powi m"
proof -
  define N :: int where "N = 2 ^ nat m"
  have N: "(2::rat) powi m = of_int N" using assms(2) by (simp add: N_def two_powi_of_int)
  have "x \<le> of_int N" "of_int (- N) \<le> x" using assms(1) N by (simp_all add: abs_le_iff)
  then have "round_half_even x \<le> N" "- N \<le> round_half_even x"
    using round_half_even_le round_half_even_ge by blast+
  then have "\<bar>round_half_even x\<bar> \<le> N" by simp
  then have "\<bar>of_int (round_half_even x) :: rat\<bar> \<le> of_int N"
    by (metis of_int_abs of_int_le_iff)
  then show ?thesis using N by simp
qed

lemma calc_bounded:
  assumes "valid_datetime now" "strptime s = Inr due"
    and "\<bar>p\<bar> \<le> 2 powi k" "0 \<le> k" "k \<le> 1000"
  shows "\<exists>r i. calculate_statutory_claim now (Fin p) s = Inr r
           \<and> statutory_interest_gbp r = Fin i \<and> \<bar>i\<bar> \<le> 2 powi (k + 12)"
proof -
  define n where "n = max 0 (toordinal now - toordinal due)"
  note b = days_overdue_bounds[OF assms(1,2)]
  have n: "\<bar>of_int n :: rat\<bar> \<le> 2 powi 22"
  proof -
    have "\<bar>n\<bar> \<le> 2 ^ 22" using b by (simp add: n_def)
    then show ?thesis
      by (metis of_int_abs of_int_le_iff of_int_numeral of_int_power power_int_numeral)
  qed
  have dr: "\<bar>daily_rate\<bar> \<le> 2 powi (- 11)" using daily_rate_bounds by simp
  have h: "\<bar>100 :: rat\<bar> \<le> 2 powi 7" by simp
  define x1 where "x1 = round_double (p * daily_rate)"
  define x2 where "x2 = round_double (x1 * of_int n)"
  define x3 where "x3 = round_double (x2 * 100)"
  define cents where "cents = round_half_even x3"
  define i where "i = round_double (of_int cents / 100)"
  have 1: "fmul (Fin p) (Fin daily_rate) = Fin x1" "\<bar>x1\<bar> \<le> 2 powi (k + - 11)"
    unfolding x1_def using assms(4,5) by (intro fmul_bounded[OF assms(3) dr]; simp)+
  have 2: "fmul (Fin x1) (Fin (of_int n)) = Fin x2" "\<bar>x2\<bar> \<le> 2 powi (k + - 11 + 22)"
    unfolding x2_def using assms(4,5) by (intro fmul_bounded[OF 1(2) n]; simp)+
  have 3: "fmul (Fin x2) (Fin 100) = Fin x3" "\<bar>x3\<bar> \<le> 2 powi (k + - 11 + 22 + 7)"
    unfolding x3_def using assms(4,5) by (intro fmul_bounded[OF 2(2) h]; simp)+
  have c: "\<bar>of_int cents :: rat\<bar> \<le> 2 powi (k + 18)"
    unfolding cents_def using 3(2) assms(4) by (intro round_half_even_abs_le) (simp_all add: add.commute)
  have "\<bar>1 / 100 :: rat\<bar> \<le> 2 powi (- 6)" by simp
  from abs_mult_le_powi[OF c this] have q: "\<bar>of_int cents / 100 :: rat\<bar> \<le> 2 powi (k + 12)"
    by (simp add: add.commute)
  have tf: "to_float (of_int cents / 100) = Fin i"
    unfolding i_def using assms(4,5) by (intro to_float_bounded[OF q]) simp_all
  have ib: "\<bar>i\<bar> \<le> 2 powi (k + 12)"
    unfolding i_def using q assms(4) by (intro round_double_abs_le) simp_all
  have "py_round (fmul (fmul (fmul (Fin p) (Fin daily_rate)) (Fin (of_int n))) (Fin 100)) = Inr cents"
    using 1(1) 2(1) 3(1) by (simp add: cents_def)
  moreover have "int_truediv cents 100 = Inr (Fin i)"
    by (simp add: int_truediv_def tf)
  ultimately show ?thesis
    using ib by (simp add: calc_unfold[OF assms(1,2)] n_def[symmetric])
qed

lemmas strptime_eval =
  strptime_def format_regex_def group_m_def group_d_def is_digit_def is_nonzero_digit_def
  int_of_str_def digit_value_def valid_date_def days_in_month_def is_leap_def

lemma strptime_2024_01_15: "strptime ''2024-01-15'' = Inr date_2024_01_15"
  by (simp add: strptime_eval)

lemma valid_clock_2024_02_24: "valid_datetime clock_2024_02_24"
  by (simp add: valid_datetime_def valid_date_def days_in_month_def is_leap_def)

lemma ten_pow_300_le: "(10::rat) ^ 300 \<le> 2 powi 1000"
  by simp

lemma round_double_999_99: "round_double (99999 / 100) = 4398002530638889 / 4398046511104"
  by (subst round_double_evalI[where e = 9 and q = "-43" and n = 8796005061277778]) simp_all

lemma round_double_9999_99: "round_double (999999 / 100) = 5497552641321861 / 549755813888"
  by (subst round_double_evalI[where e = 13 and q = "-39" and n = 5497552641321861]) simp_all

section \<open>The claims\<close>

text \<open>
  C2. For every finite principal \<open>p\<close>, whenever the claim calculation returns, the
  fixed compensation it returns is 40 if \<open>p < 1000\<close>, 70 if \<open>1000 \<le> p < 10000\<close> and
  100 if \<open>p \<ge> 10000\<close>; and it does return for every principal of magnitude at
  most \<open>10 ^ 300\<close> and every well-formed due date.
\<close>

theorem compensation_step_function:
  assumes "valid_datetime now" "strptime due_date_str = Inr due"
  shows "(\<bar>p\<bar> \<le> 10 ^ 300 \<longrightarrow> (\<exists>r. calculate_statutory_claim now (Fin p) due_date_str = Inr r))
       \<and> (\<forall>r. calculate_statutory_claim now (Fin p) due_date_str = Inr r \<longrightarrow>
              compensation_gbp r = (if p < 1000 then 40 else if p < 10000 then 70 else 100))"
proof (intro conjI impI allI)
  assume "\<bar>p\<bar> \<le> 10 ^ 300"
  then have "\<bar>p\<bar> \<le> 2 powi 1000" using ten_pow_300_le by linarith
  from calc_bounded[OF assms this] show "\<exists>r. calculate_statutory_claim now (Fin p) due_date_str = Inr r"
    by auto
next
  fix r assume "calculate_statutory_claim now (Fin p) due_date_str = Inr r"
  from calc_Inr(3)[OF assms this]
  show "compensation_gbp r = (if p < 1000 then 40 else if p < 10000 then 70 else 100)"
    by (simp add: spec_compensation_def)
qed

text \<open>
  The values of the specification: 999.99 gives 40, 1000.00 gives 70, 9999.99
  gives 70 and 10000.00 gives 100 (999.99 and 9999.99 being the nearest
  binary64 numbers).
\<close>

theorem compensation_step_function_witness:
  "map_sum id compensation_gbp
     (calculate_statutory_claim clock_2024_02_24 (Fin (round_double (99999 / 100))) ''2024-01-15'') = Inr 40
   \<and> map_sum id compensation_gbp
     (calculate_statutory_claim clock_2024_02_24 (Fin 1000) ''2024-01-15'') = Inr 70
   \<and> map_sum id compensation_gbp
     (calculate_statutory_claim clock_2024_02_24 (Fin (round_double (999999 / 100))) ''2024-01-15'') = Inr 70
   \<and> map_sum id compensation_gbp
     (calculate_statutory_claim clock_2024_02_24 (Fin 10000) ''2024-01-15'') = Inr 100"
  using
    compensation_step_function[OF valid_clock_2024_02_24 strptime_2024_01_15, of "round_double (99999 / 100)"]
    compensation_step_function[OF valid_clock_2024_02_24 strptime_2024_01_15, of 1000]
    compensation_step_function[OF valid_clock_2024_02_24 strptime_2024_01_15, of "round_double (999999 / 100)"]
    compensation_step_function[OF valid_clock_2024_02_24 strptime_2024_01_15, of 10000]
  by (auto simp: round_double_999_99 round_double_9999_99)

lemma round_half_even_zero [simp]: "round_half_even 0 = 0"
  using round_half_even_of_int[of 0] by simp

lemma binary64_interest_zero_days: "binary64_interest p 0 = 0"
  by (simp add: binary64_interest_def)

lemma toordinal_clock_2024_02_24: "toordinal clock_2024_02_24 = 738940"
  by (simp add: toordinal_def days_before_year_def days_before_month_def is_leap_def)

lemma toordinal_date_2024_01_15: "toordinal date_2024_01_15 = 738900"
  by (simp add: toordinal_def days_before_year_def days_before_month_def is_leap_def)

lemma strptime_2024_03_01:
  "strptime ''2024-03-01'' =
     Inr \<lparr>year = 2024, month = 3, day = 1, hour = 0, minute = 0, second = 0, microsecond = 0\<rparr>"
  by (simp add: strptime_eval)

lemma toordinal_date_2024_03_01:
  "toordinal \<lparr>year = 2024, month = 3, day = 1, hour = 0, minute = 0, second = 0, microsecond = 0\<rparr> = 738946"
  by (simp add: toordinal_def days_before_year_def days_before_month_def is_leap_def)

lemma strptime_2024_02_30: "strptime ''2024-02-30'' = Inl ValueError"
  by (simp add: strptime_eval)

lemma strptime_2023_11_16:
  "strptime ''2023-11-16'' =
     Inr \<lparr>year = 2023, month = 11, day = 16, hour = 0, minute = 0, second = 0, microsecond = 0\<rparr>"
  by (simp add: strptime_eval)

lemma toordinal_date_2023_11_16:
  "toordinal \<lparr>year = 2023, month = 11, day = 16, hour = 0, minute = 0, second = 0, microsecond = 0\<rparr> = 738840"
  by (simp add: toordinal_def days_before_year_def days_before_month_def is_leap_def)

lemma overflow_product:
  "fmul (fmul (fmul (Fin (2 ^ 1023)) (Fin daily_rate)) (Fin 100)) (Fin 100) = PInf"
proof -
  have x1: "round_double (2 ^ 1023 * daily_rate) = 3221862834791737 * 2 ^ 960"
    unfolding daily_rate_eq
    by (subst round_double_evalI[where e = 1011 and q = 959 and n = 6443725669583474]) simp_all
  have x2: "round_double (3221862834791737 * 2 ^ 960 * 100) = 5034160679362089 * 2 ^ 966"
    by (subst round_double_evalI[where e = 1018 and q = 966 and n = 5034160679362089]) simp_all
  have x3: "round_double (5034160679362089 * 2 ^ 966 * 100) = 7865876061503264 * 2 ^ 972"
    by (subst round_double_evalI[where e = 1024 and q = 972 and n = 7865876061503264]) simp_all
  have 1: "fmul (Fin (2 ^ 1023)) (Fin daily_rate) = Fin (3221862834791737 * 2 ^ 960)"
    unfolding fmul.simps to_float_def Let_def x1 by simp
  have 2: "fmul (Fin (3221862834791737 * 2 ^ 960)) (Fin 100) = Fin (5034160679362089 * 2 ^ 966)"
    unfolding fmul.simps to_float_def Let_def x2 by simp
  have 3: "fmul (Fin (5034160679362089 * 2 ^ 966)) (Fin 100) = PInf"
    unfolding fmul.simps to_float_def Let_def x3 by simp
  show ?thesis unfolding 1 2 3 ..
qed

text \<open>
  C9, as stated, fails twice. A due date that is no calendar date makes
  \<^verbatim>\<open>datetime.strptime\<close> raise the built-in \<open>ValueError\<close>, which the program
  neither catches nor turns into a validation error that names a field. And
  a well-formed due date does not exclude an error: for the principal
  \<open>2 ^ 1023\<close> (a finite float) and a due date 100 days before the clock the
  product overflows to infinity and \<^verbatim>\<open>round\<close> raises \<open>OverflowError\<close>.
\<close>

theorem claim_calculation_errors_counterexample:
  "calculate_statutory_claim clock_2024_02_24 (Fin 5000) ''2024-02-30'' = Inl ValueError
   \<and> calculate_statutory_claim clock_2024_02_24 (Fin (2 ^ 1023)) ''2023-11-16'' = Inl OverflowError"
proof
  show "calculate_statutory_claim clock_2024_02_24 (Fin 5000) ''2024-02-30'' = Inl ValueError"
    by (simp add: calculate_statutory_claim_def strptime_2024_02_30)
  have "max 0 (toordinal clock_2024_02_24 - toordinal
          \<lparr>year = 2023, month = 11, day = 16, hour = 0, minute = 0, second = 0, microsecond = 0\<rparr>) = 100"
    by (simp only: toordinal_clock_2024_02_24 toordinal_date_2023_11_16)
  then show "calculate_statutory_claim clock_2024_02_24 (Fin (2 ^ 1023)) ''2023-11-16'' = Inl OverflowError"
    unfolding calc_unfold[OF valid_clock_2024_02_24 strptime_2023_11_16]
    by (simp only: of_int_numeral overflow_product py_round.simps sum.case)
qed


lemma to_float_Fin_abs: "to_float x = Fin y \<Longrightarrow> \<bar>y\<bar> \<le> 2 powi 1024"
  by (simp add: to_float_def Let_def abs_le_iff split: if_splits)

lemma fmul_Fin_abs: "fmul a b = Fin y \<Longrightarrow> \<bar>y\<bar> \<le> 2 powi 1024"
  by (cases a; cases b) (auto dest: to_float_Fin_abs split: if_splits)

lemma int_truediv_100_total:
  assumes "\<bar>x\<bar> \<le> 2 powi 1024"
  shows "int_truediv (round_half_even x) 100 = Inr (Fin (round_double (of_int (round_half_even x) / 100)))"
proof -
  have c: "\<bar>of_int (round_half_even x) :: rat\<bar> \<le> 2 powi 1024"
    using assms by (rule round_half_even_abs_le) simp
  have "\<bar>1 / 100 :: rat\<bar> \<le> 2 powi (- 6)" by simp
  from abs_mult_le_powi[OF c this]
  have "\<bar>of_int (round_half_even x) / 100 :: rat\<bar> \<le> 2 powi 1018" by simp
  then have "to_float (of_int (round_half_even x) / 100) = Fin (round_double (of_int (round_half_even x) / 100))"
    by (rule to_float_bounded) simp_all
  then show ?thesis by (simp add: int_truediv_def)
qed

lemma calc_exceptions:
  assumes "calculate_statutory_claim now a s = Inl e"
  shows "e = ValueError \<or> e = OverflowError"
proof (cases "strptime s")
  case (Inl e')
  then show ?thesis using assms strptime_Inl[OF Inl] by (simp add: calculate_statutory_claim_def)
next
  case (Inr due)
  define X where "X = fmul (fmul (fmul a (Fin daily_rate))
      (float_of_int (max 0 (timedelta_days now due)))) (float_of_int 100)"
  show ?thesis
  proof (cases X)
    case (Fin x)
    have "\<bar>x\<bar> \<le> 2 powi 1024" using Fin unfolding X_def by (rule fmul_Fin_abs)
    from int_truediv_100_total[OF this] assms Inr Fin show ?thesis
      by (simp add: calculate_statutory_claim_def Let_def X_def[symmetric])
  qed (use assms Inr in \<open>simp_all add: calculate_statutory_claim_def Let_def X_def[symmetric]\<close>)
qed

text \<open>
  C9, amended. A due-date string that \<^verbatim>\<open>strptime\<close> refuses makes the claim
  calculation fail with \<open>ValueError\<close>; the calculation raises nothing but
  \<open>ValueError\<close> and \<open>OverflowError\<close>; and for a well-formed due date and a
  finite principal of magnitude at most \<open>10 ^ 300\<close> it raises no error.
\<close>

theorem claim_calculation_errors:
  "(\<forall>e. strptime due_date_str = Inl e \<longrightarrow>
        calculate_statutory_claim now amount due_date_str = Inl ValueError)
   \<and> (\<forall>e. calculate_statutory_claim now amount due_date_str = Inl e \<longrightarrow>
        e = ValueError \<or> e = OverflowError)
   \<and> (\<forall>due. valid_datetime now \<and> strptime due_date_str = Inr due \<and> \<bar>p\<bar> \<le> 10 ^ 300 \<longrightarrow>
        (\<exists>r. calculate_statutory_claim now (Fin p) due_date_str = Inr r))"
proof (intro conjI allI impI)
  fix e assume "strptime due_date_str = Inl e"
  then show "calculate_statutory_claim now amount due_date_str = Inl ValueError"
    using strptime_Inl[of due_date_str e] by (simp add: calculate_statutory_claim_def)
next
  fix e assume "calculate_statutory_claim now amount due_date_str = Inl e"
  then show "e = ValueError \<or> e = OverflowError" by (rule calc_exceptions)
next
  fix due assume a: "valid_datetime now \<and> strptime due_date_str = Inr due \<and> \<bar>p\<bar> \<le> 10 ^ 300"
  then have "\<bar>p\<bar> \<le> 2 powi 1000" using ten_pow_300_le by linarith
  from calc_bounded[of now due_date_str due p 1000] a this
  show "\<exists>r. calculate_statutory_claim now (Fin p) due_date_str = Inr r" by auto
qed

text \<open>The 30th of February is refused; the 15th of January is accepted.\<close>

theorem claim_calculation_errors_witness:
  "calculate_statutory_claim clock_2024_02_24 (Fin 5000) ''2024-02-30'' = Inl ValueError
   \<and> isl (calculate_statutory_claim clock_2024_02_24 (Fin 5000) ''2024-01-15'') = False"
  using claim_calculation_errors[of "''2024-02-30''" clock_2024_02_24 "Fin 5000" 5000]
    claim_calculation_errors[of "''2024-01-15''" clock_2024_02_24 "Fin 5000" 5000]
  by (auto simp: strptime_2024_02_30 strptime_2024_01_15 valid_clock_2024_02_24)

lemma toordinal_cong:
  "year a = year b \<Longrightarrow> month a = month b \<Longrightarrow> day a = day b \<Longrightarrow> toordinal a = toordinal b"
  by (simp add: toordinal_def)

lemma valid_clock_2024_02_25: "valid_datetime clock_2024_02_25"
  by (simp add: valid_datetime_def valid_date_def days_in_month_def is_leap_def)

lemma toordinal_clock_2024_02_25: "toordinal clock_2024_02_25 = 738941"
  by (simp add: toordinal_def days_before_year_def days_before_month_def is_leap_def)

text \<open>
  C4, as stated, fails: the source function has two parameters and reads
  the clock itself, so two calls with the same principal and the same due
  date give different results on different days.
\<close>

theorem clock_dependence_counterexample:
  "map_sum id days_overdue
     (calculate_statutory_claim clock_2024_02_24 (Fin 5000) ''2024-01-15'') = Inr 40
   \<and> map_sum id days_overdue
     (calculate_statutory_claim clock_2024_02_25 (Fin 5000) ''2024-01-15'') = Inr 41"
proof -
  have p: "\<bar>5000 :: rat\<bar> \<le> 2 powi 1000" by simp
  from calc_bounded[OF valid_clock_2024_02_24 strptime_2024_01_15 p]
  obtain r1 where r1: "calculate_statutory_claim clock_2024_02_24 (Fin 5000) ''2024-01-15'' = Inr r1"
    by auto
  from calc_bounded[OF valid_clock_2024_02_25 strptime_2024_01_15 p]
  obtain r2 where r2: "calculate_statutory_claim clock_2024_02_25 (Fin 5000) ''2024-01-15'' = Inr r2"
    by auto
  have "days_overdue r1 = 40"
    using calc_Inr(1)[OF valid_clock_2024_02_24 strptime_2024_01_15 r1]
    by (simp only: toordinal_clock_2024_02_24 toordinal_date_2024_01_15)
  moreover have "days_overdue r2 = 41"
    using calc_Inr(1)[OF valid_clock_2024_02_25 strptime_2024_01_15 r2]
    by (simp only: toordinal_clock_2024_02_25 toordinal_date_2024_01_15)
  ultimately show ?thesis by (simp add: r1 r2)
qed

text \<open>
  C4, amended. The claim calculation is a function of its two arguments
  and of the calendar date of the clock reading: it changes nothing, and two
  calls with the same arguments and clock readings on the same day return
  the same result.
\<close>

theorem claim_depends_on_clock_date_only:
  assumes "valid_datetime now1" "valid_datetime now2"
    and "year now1 = year now2" "month now1 = month now2" "day now1 = day now2"
  shows "calculate_statutory_claim now1 amount due_date_str =
         calculate_statutory_claim now2 amount due_date_str"
proof (cases "strptime due_date_str")
  case (Inl e)
  then show ?thesis by (simp add: calculate_statutory_claim_def)
next
  case (Inr due)
  have "toordinal now1 = toordinal now2" using assms(3-5) by (rule toordinal_cong)
  then show ?thesis
    by (simp only: calc_unfold[OF assms(1) Inr] calc_unfold[OF assms(2) Inr])
qed

text \<open>Two readings of the clock on 24 February 2024, at 13:05 and at midnight.\<close>

theorem claim_depends_on_clock_date_only_witness:
  "calculate_statutory_claim clock_2024_02_24 (Fin 5000) ''2024-01-15'' =
   calculate_statutory_claim
     \<lparr>year = 2024, month = 2, day = 24, hour = 0, minute = 0, second = 0, microsecond = 0\<rparr>
     (Fin 5000) ''2024-01-15''"
proof -
  have v: "valid_datetime
     \<lparr>year = 2024, month = 2, day = 24, hour = 0, minute = 0, second = 0, microsecond = 0\<rparr>"
    by (simp add: valid_datetime_def valid_date_def days_in_month_def is_leap_def)
  show ?thesis
    using claim_depends_on_clock_date_only[OF valid_clock_2024_02_24 v] by simp
qed





lemma round_half_even_tie_even:
  assumes "x - of_int n = 1 / 2" "even n"
  shows "round_half_even x = n"
proof -
  have "\<lfloor>x\<rfloor> = n" using assms(1) by linarith
  then show ?thesis using assms by (simp add: round_half_even_def Let_def)
qed

lemma round_half_even_tie_odd:
  assumes "x - of_int n = 1 / 2" "odd n"
  shows "round_half_even x = n + 1"
proof -
  have "\<lfloor>x\<rfloor> = n" using assms(1) by linarith
  then show ?thesis using assms by (simp add: round_half_even_def Let_def)
qed

lemma round_double_eval_tieI:
  assumes "2 powi e \<le> \<bar>x\<bar>" "\<bar>x\<bar> < 2 powi (e + 1)" "q = max (e - 52) (- 1074)"
    and "x / 2 powi q - of_int n = 1 / 2" "even n"
  shows "round_double x = of_int n * 2 powi q"
  using round_double_eval[OF assms(1,2)] assms(3) round_half_even_tie_even[OF assms(4,5)] by simp

lemma binary64_interest_5000_40: "binary64_interest 5000 40 = round_double (6986 / 100)"
proof -
  have x1: "round_double (5000 * daily_rate) = 245808626921977 / 140737488355328"
    unfolding daily_rate_eq
    by (subst round_double_evalI[where e = 0 and q = "-52" and n = 7865876061503264]) simp_all
  have x2: "round_double (245808626921977 / 140737488355328 * 40) = 1229043134609885 / 17592186044416"
    by (subst round_double_evalI[where e = 6 and q = "-46" and n = 4916172538439540]) simp_all
  have x3: "round_double (1229043134609885 / 17592186044416 * 100) = 7681519591311781 / 1099511627776"
    by (subst round_double_evalI[where e = 12 and q = "-40" and n = 7681519591311781]) simp_all
  have c: "round_half_even (7681519591311781 / 1099511627776) = 6986"
    by (rule round_half_even_eqI) simp
  show ?thesis
    by (simp only: binary64_interest_def of_int_numeral x1 x2 x3 c)
qed

lemma binary64_interest_10_365: "binary64_interest 10 365 = round_double (127 / 100)"
proof -
  have x1: "round_double (10 * daily_rate) = 4027328543489671 / 1152921504606846976"
    unfolding daily_rate_eq
    by (subst round_double_eval_tieI[where e = "-9" and q = "-61" and n = 8054657086979342]) simp_all
  have x2: "round_double (4027328543489671 / 1152921504606846976 * 365) = 2871044762448691 / 2251799813685248"
    by (subst round_double_evalI[where e = 0 and q = "-52" and n = 5742089524897382]) simp_all
  have x3: "round_double (2871044762448691 / 2251799813685248 * 100) = 8972014882652159 / 70368744177664"
    by (subst round_double_evalI[where e = 6 and q = "-46" and n = 8972014882652159]) simp_all
  have c: "round_half_even (8972014882652159 / 70368744177664) = 127"
    by (rule round_half_even_eqI) simp
  show ?thesis
    by (simp only: binary64_interest_def of_int_numeral x1 x2 x3 c)
qed

lemma round_double_1_27: "round_double (127 / 100) = 2859785763380265 / 2251799813685248"
  by (subst round_double_evalI[where e = 0 and q = "-52" and n = 5719571526760530]) simp_all

lemma round_double_1_28: "round_double (128 / 100) = 5764607523034235 / 4503599627370496"
  by (subst round_double_evalI[where e = 0 and q = "-52" and n = 5764607523034235]) simp_all

lemma strptime_2023_02_24:
  "strptime ''2023-02-24'' =
     Inr \<lparr>year = 2023, month = 2, day = 24, hour = 0, minute = 0, second = 0, microsecond = 0\<rparr>"
  by (simp add: strptime_eval)

lemma toordinal_date_2023_02_24:
  "toordinal \<lparr>year = 2023, month = 2, day = 24, hour = 0, minute = 0, second = 0, microsecond = 0\<rparr> = 738575"
  by (simp add: toordinal_def days_before_year_def days_before_month_def is_leap_def)

lemma spec_interest_10_365: "spec_interest 10 365 = 128 / 100"
proof -
  have "round_half_even (255 / 2) = 127 + 1"
    by (rule round_half_even_tie_odd) simp_all
  then show ?thesis
    by (simp add: spec_interest_def spec_product_def spec_round2_def spec_annual_rate_def)
qed

text \<open>
  C1, as stated, fails where the exact product is a half penny. For a
  principal of 10.00 that is 365 days overdue the product is 1.275, which
  \<^verbatim>\<open>round2\<close> takes to 1.28 under half-up and under half-even; the binary64
  product of the program is 127.49999999999999 pence, which \<^verbatim>\<open>round\<close> takes
  to 127, and the interest returned is 1.27.
\<close>

theorem statutory_interest_counterexample:
  "map_sum id statutory_interest_gbp
     (calculate_statutory_claim clock_2024_02_24 (Fin 10) ''2023-02-24'') =
       Inr (Fin (2859785763380265 / 2251799813685248))
   \<and> map_sum id days_overdue
     (calculate_statutory_claim clock_2024_02_24 (Fin 10) ''2023-02-24'') = Inr 365
   \<and> round_double (127 / 100) = 2859785763380265 / 2251799813685248
   \<and> spec_product 10 365 = 1275 / 1000
   \<and> spec_interest 10 365 = 128 / 100
   \<and> spec_round2_half_up (spec_product 10 365) = 128 / 100
   \<and> round_double (128 / 100) = 5764607523034235 / 4503599627370496"
proof -
  have p: "\<bar>10 :: rat\<bar> \<le> 2 powi 1000" by simp
  from calc_bounded[OF valid_clock_2024_02_24 strptime_2023_02_24 p]
  obtain r where r: "calculate_statutory_claim clock_2024_02_24 (Fin 10) ''2023-02-24'' = Inr r"
    by auto
  note c = calc_Inr[OF valid_clock_2024_02_24 strptime_2023_02_24 r]
  have d: "days_overdue r = 365"
    using c(1) by (simp only: toordinal_clock_2024_02_24 toordinal_date_2023_02_24)
  have i: "statutory_interest_gbp r = Fin (2859785763380265 / 2251799813685248)"
    using c(2) unfolding d binary64_interest_10_365 round_double_1_27 .
  have h: "spec_round2_half_up (spec_product 10 365) = 128 / 100"
    by (simp add: spec_round2_half_up_def spec_product_def spec_annual_rate_def)
  have s: "spec_product 10 365 = 1275 / 1000"
    by (simp add: spec_product_def spec_annual_rate_def)
  have 1: "map_sum id statutory_interest_gbp
     (calculate_statutory_claim clock_2024_02_24 (Fin 10) ''2023-02-24'') =
       Inr (Fin (2859785763380265 / 2251799813685248))"
    by (simp add: r i)
  have 2: "map_sum id days_overdue
     (calculate_statutory_claim clock_2024_02_24 (Fin 10) ''2023-02-24'') = Inr 365"
    by (simp add: r d)
  from 1 2 round_double_1_27 s spec_interest_10_365 h round_double_1_28
  show ?thesis by (intro conjI)
qed

lemma daily_rate_error: "\<bar>daily_rate - spec_annual_rate / 365\<bar> \<le> 2 powi (- 64)"
  by (simp add: daily_rate_eq spec_annual_rate_def)

lemma two_powi_shift: "(2::rat) powi (k + c) = 2 powi k * 2 powi c"
  by (simp add: power_int_add)

lemma cents_error:
  assumes "\<bar>p\<bar> \<le> 2 powi k" "0 \<le> k" "k \<le> 1000" "0 \<le> n" "n \<le> 2 ^ 22"
  shows "\<bar>round_double (round_double (round_double (p * daily_rate) * of_int n) * 100)
          - spec_product p n * 100\<bar> \<le> 2 powi (k - 33)"
proof -
  define K :: rat where "K = 2 powi k"
  define r :: rat where "r = spec_annual_rate / 365"
  define N :: rat where "N = of_int n"
  define x1 where "x1 = round_double (p * daily_rate)"
  define x2 where "x2 = round_double (x1 * N)"
  define x3 where "x3 = round_double (x2 * 100)"
  have K0: "0 < K" by (simp add: K_def)
  have pK: "\<bar>p\<bar> \<le> K" using assms(1) by (simp add: K_def)
  have N0: "0 \<le> N" using assms(4) by (simp add: N_def)
  have "N \<le> of_int (2 ^ 22)" unfolding N_def using assms(5) by (simp only: of_int_le_iff)
  then have N1: "N \<le> 4194304" by simp
  have Nb: "\<bar>N\<bar> \<le> 2 powi 22" using N0 N1 by simp
  have dr: "\<bar>daily_rate\<bar> \<le> 2 powi (- 11)" using daily_rate_bounds by simp
  have h: "\<bar>100 :: rat\<bar> \<le> 2 powi 7" by simp
  \<comment> \<open>first product\<close>
  have a1: "\<bar>p * daily_rate\<bar> \<le> 2 powi (k + - 11)" by (rule abs_mult_le_powi[OF assms(1) dr])
  have b1: "\<bar>x1\<bar> \<le> 2 powi (k + - 11)"
    unfolding x1_def using a1 assms(2) by (intro round_double_abs_le) simp_all
  have "\<bar>x1 - p * daily_rate\<bar> \<le> 2 powi (k + - 11 - 54)"
    unfolding x1_def using a1 assms(2) by (intro round_double_error) simp_all
  also have "k + - 11 - 54 = k + (- 65)" by simp
  finally have e1: "\<bar>x1 - p * daily_rate\<bar> \<le> K * 2 powi (- 65)"
    by (simp only: two_powi_shift K_def)
  have "p * daily_rate - p * r = p * (daily_rate - r)" by (simp add: right_diff_distrib)
  then have "\<bar>p * daily_rate - p * r\<bar> = \<bar>p\<bar> * \<bar>daily_rate - r\<bar>" by (simp only: abs_mult)
  also have "\<dots> \<le> K * 2 powi (- 64)"
    using pK daily_rate_error unfolding r_def by (intro mult_mono) simp_all
  finally have d1: "\<bar>p * daily_rate - p * r\<bar> \<le> K * 2 powi (- 64)" .
  have f1: "\<bar>x1 - p * r\<bar> \<le> K * (2 powi (- 65) + 2 powi (- 64))"
    using e1 d1 by (simp only: distrib_left)
  \<comment> \<open>second product\<close>
  have a2: "\<bar>x1 * N\<bar> \<le> 2 powi (k + - 11 + 22)" by (rule abs_mult_le_powi[OF b1 Nb])
  have b2: "\<bar>x2\<bar> \<le> 2 powi (k + - 11 + 22)"
    unfolding x2_def using a2 assms(2) by (intro round_double_abs_le) simp_all
  have "\<bar>x2 - x1 * N\<bar> \<le> 2 powi (k + - 11 + 22 - 54)"
    unfolding x2_def using a2 assms(2) by (intro round_double_error) simp_all
  also have "k + - 11 + 22 - 54 = k + (- 43)" by simp
  finally have e2: "\<bar>x2 - x1 * N\<bar> \<le> K * 2 powi (- 43)"
    by (simp only: two_powi_shift K_def)
  have "x1 * N - p * r * N = (x1 - p * r) * N" by (simp add: left_diff_distrib)
  then have "\<bar>x1 * N - p * r * N\<bar> = \<bar>x1 - p * r\<bar> * \<bar>N\<bar>" by (simp only: abs_mult)
  then have "\<bar>x1 * N - p * r * N\<bar> = \<bar>x1 - p * r\<bar> * N" using N0 by simp
  also have "\<dots> \<le> K * (2 powi (- 65) + 2 powi (- 64)) * 4194304"
    using f1 N0 N1 K0 by (intro mult_mono) simp_all
  finally have d2: "\<bar>x1 * N - p * r * N\<bar> \<le> K * (2 powi (- 65) + 2 powi (- 64)) * 4194304" .
  have f2: "\<bar>x2 - p * r * N\<bar> \<le> K * 2 powi (- 43) + K * (2 powi (- 65) + 2 powi (- 64)) * 4194304"
    using e2 d2 by linarith
  \<comment> \<open>third product\<close>
  have a3: "\<bar>x2 * 100\<bar> \<le> 2 powi (k + - 11 + 22 + 7)" by (rule abs_mult_le_powi[OF b2 h])
  have "\<bar>x3 - x2 * 100\<bar> \<le> 2 powi (k + - 11 + 22 + 7 - 54)"
    unfolding x3_def using a3 assms(2) by (intro round_double_error) simp_all
  also have "k + - 11 + 22 + 7 - 54 = k + (- 36)" by simp
  finally have e3: "\<bar>x3 - x2 * 100\<bar> \<le> K * 2 powi (- 36)"
    by (simp only: two_powi_shift K_def)
  have "x2 * 100 - p * r * N * 100 = (x2 - p * r * N) * 100" by (simp add: left_diff_distrib)
  then have "\<bar>x2 * 100 - p * r * N * 100\<bar> = \<bar>x2 - p * r * N\<bar> * \<bar>100\<bar>" by (simp only: abs_mult)
  then have "\<bar>x2 * 100 - p * r * N * 100\<bar> = \<bar>x2 - p * r * N\<bar> * 100" by simp
  also have "\<dots> \<le> (K * 2 powi (- 43) + K * (2 powi (- 65) + 2 powi (- 64)) * 4194304) * 100"
    using f2 by simp
  finally have d3: "\<bar>x2 * 100 - p * r * N * 100\<bar>
      \<le> (K * 2 powi (- 43) + K * (2 powi (- 65) + 2 powi (- 64)) * 4194304) * 100" .
  have "\<bar>x3 - p * r * N * 100\<bar>
      \<le> K * 2 powi (- 36) + (K * 2 powi (- 43) + K * (2 powi (- 65) + 2 powi (- 64)) * 4194304) * 100"
    using e3 d3 by linarith
  also have "\<dots> = K * (2 powi (- 36) + (2 powi (- 43) + (2 powi (- 65) + 2 powi (- 64)) * 4194304) * 100)"
    by (simp only: distrib_left distrib_right mult.assoc)
  also have "\<dots> \<le> K * 2 powi (- 33)"
    using K0 by (intro mult_left_mono) simp_all
  also have "\<dots> = 2 powi (k - 33)"
    using two_powi_shift[of k "- 33"] by (simp add: K_def)
  finally show ?thesis
    by (simp add: x3_def x2_def x1_def N_def r_def spec_product_def)
qed


lemma spec_interest_cents: "spec_interest p n * 100 = of_int (round_half_even (spec_product p n * 100))"
  by (simp add: spec_interest_def spec_round2_def)

text \<open>
  C1, amended. The reference date is the reading \<open>now\<close> of the clock. For every
  principal \<open>p\<close> with \<open>\<bar>p\<bar> \<le> 2 ^ k\<close>, where \<open>0 \<le> k \<le> 1000\<close>, and every well-formed
  due date, the claim calculation returns; the days overdue are \<open>max 0\<close> of the
  whole days from the due date to the reference date; the interest is the
  binary64 number nearest to \<open>c / 100\<close> for a whole number \<open>c\<close> of pence that lies
  within \<open>1/2 + 2 ^ (k - 33)\<close> of the exact product \<open>p * (0.1275 / 365) * days\<close>
  in pence; so it is \<^verbatim>\<open>round2\<close> of the exact product, as the nearest binary64
  number, whenever that product is farther than \<open>2 ^ (k - 33)\<close> pence from a
  half penny. The interest is 0 when the due date is not before the
  reference date, and 69.86 for \<open>p = 5000\<close> and a due date 40 days before it.
\<close>

theorem statutory_interest_within_half_penny:
  assumes "valid_datetime now" "strptime due_date_str = Inr due"
    and "\<bar>p\<bar> \<le> 2 powi k" "0 \<le> k" "k \<le> 1000"
  shows "\<exists>r c. calculate_statutory_claim now (Fin p) due_date_str = Inr r
           \<and> days_overdue r = max 0 (toordinal now - toordinal due)
           \<and> statutory_interest_gbp r = Fin (round_double (of_int c / 100))
           \<and> \<bar>of_int c - spec_product p (days_overdue r) * 100\<bar> \<le> 1 / 2 + 2 powi (k - 33)
           \<and> (\<bar>spec_product p (days_overdue r) * 100 - spec_interest p (days_overdue r) * 100\<bar>
                  < 1 / 2 - 2 powi (k - 33) \<longrightarrow>
                statutory_interest_gbp r = Fin (round_double (spec_interest p (days_overdue r))))
           \<and> (toordinal now \<le> toordinal due \<longrightarrow> statutory_interest_gbp r = Fin 0)
           \<and> (p = 5000 \<and> toordinal now - toordinal due = 40 \<longrightarrow>
                statutory_interest_gbp r = Fin (round_double (6986 / 100)))"
proof -
  from calc_bounded[OF assms] obtain r where
    r: "calculate_statutory_claim now (Fin p) due_date_str = Inr r" by auto
  note c = calc_Inr[OF assms(1,2) r]
  note b = days_overdue_bounds[OF assms(1,2)]
  define n where "n = days_overdue r"
  have n: "0 \<le> n" "n \<le> 2 ^ 22" using c(1) b by (simp_all add: n_def)
  define x3 where "x3 = round_double (round_double (round_double (p * daily_rate) * of_int n) * 100)"
  define X where "X = spec_product p n * 100"
  define cents where "cents = round_half_even x3"
  define eps :: rat where "eps = 2 powi (k - 33)"
  have i: "statutory_interest_gbp r = Fin (round_double (of_int cents / 100))"
    using c(2) by (simp add: binary64_interest_def cents_def x3_def n_def)
  have err: "\<bar>x3 - X\<bar> \<le> eps"
    unfolding x3_def X_def eps_def by (rule cents_error[OF assms(3-5) n])
  have "\<bar>of_int cents - x3\<bar> \<le> 1 / 2"
    using round_half_even_bounds[of x3] unfolding cents_def by linarith
  then have near: "\<bar>of_int cents - X\<bar> \<le> 1 / 2 + eps" using err by linarith
  have tie: "statutory_interest_gbp r = Fin (round_double (spec_interest p n))"
    if far: "\<bar>X - spec_interest p n * 100\<bar> < 1 / 2 - eps"
  proof -
    define m where "m = round_half_even X"
    have m: "spec_interest p n * 100 = of_int m"
      unfolding m_def X_def by (rule spec_interest_cents)
    have "\<bar>(of_int cents :: rat) - of_int m\<bar> < 1" using near far m by linarith
    then have "\<bar>(of_int (cents - m) :: rat)\<bar> < of_int 1" by simp
    then have "\<bar>cents - m\<bar> < 1" by (metis of_int_abs of_int_less_iff)
    then have "cents = m" by simp
    moreover have "of_int m / 100 = spec_interest p n"
      unfolding m[symmetric] by simp
    ultimately show ?thesis using i by (simp only:)
  qed
  have zero: "statutory_interest_gbp r = Fin 0" if "toordinal now \<le> toordinal due"
  proof -
    have "days_overdue r = 0" using c(1) that by simp
    then show ?thesis using c(2) by (simp add: binary64_interest_zero_days)
  qed
  have ex: "statutory_interest_gbp r = Fin (round_double (6986 / 100))"
    if "p = 5000 \<and> toordinal now - toordinal due = 40"
  proof -
    have "p = 5000" "days_overdue r = 40" using c(1) that by simp_all
    then show ?thesis using c(2) by (simp only: binary64_interest_5000_40)
  qed
  show ?thesis
    using r c(1) i near tie zero ex unfolding n_def X_def eps_def by blast
qed

lemma spec_interest_5000_40: "spec_interest 5000 40 = 6986 / 100"
proof -
  have "round_half_even (510000 / 73) = 6986"
    by (rule round_half_even_eqI) simp
  then show ?thesis
    by (simp add: spec_interest_def spec_product_def spec_round2_def spec_annual_rate_def)
qed

text \<open>
  On 24 February 2024 a principal of 5000 due on 15 January 2024 is 40 days
  overdue; the exact product is 6986.30 pence, \<^verbatim>\<open>round2\<close> of it is 69.86, and
  that is the interest returned. Due on 1 March 2024 it bears none.
\<close>

theorem statutory_interest_within_half_penny_witness:
  "map_sum id statutory_interest_gbp
     (calculate_statutory_claim clock_2024_02_24 (Fin 5000) ''2024-01-15'') =
       Inr (Fin (round_double (spec_interest 5000 40)))
   \<and> spec_interest 5000 40 = 6986 / 100
   \<and> map_sum id days_overdue
     (calculate_statutory_claim clock_2024_02_24 (Fin 5000) ''2024-01-15'') = Inr 40
   \<and> map_sum id statutory_interest_gbp
     (calculate_statutory_claim clock_2024_02_24 (Fin 5000) ''2024-03-01'') = Inr (Fin 0)"
proof -
  have p: "\<bar>5000 :: rat\<bar> \<le> 2 powi 13" "(0::int) \<le> 13" "(13::int) \<le> 1000" by simp_all
  from statutory_interest_within_half_penny[OF valid_clock_2024_02_24 strptime_2024_01_15 p]
  obtain r where r: "calculate_statutory_claim clock_2024_02_24 (Fin 5000) ''2024-01-15'' = Inr r"
    and d: "days_overdue r = max 0 (toordinal clock_2024_02_24 - toordinal date_2024_01_15)"
    and t: "\<bar>spec_product 5000 (days_overdue r) * 100 - spec_interest 5000 (days_overdue r) * 100\<bar>
                  < 1 / 2 - 2 powi (13 - 33) \<longrightarrow>
                statutory_interest_gbp r = Fin (round_double (spec_interest 5000 (days_overdue r)))"
    by blast
  have d40: "days_overdue r = 40"
    using d by (simp only: toordinal_clock_2024_02_24 toordinal_date_2024_01_15)
  have "\<bar>spec_product 5000 40 * 100 - spec_interest 5000 40 * 100\<bar> < 1 / 2 - 2 powi (13 - 33)"
    by (simp add: spec_interest_5000_40) (simp add: spec_product_def spec_annual_rate_def)
  with t have i: "statutory_interest_gbp r = Fin (round_double (spec_interest 5000 40))"
    unfolding d40 by blast
  from statutory_interest_within_half_penny[OF valid_clock_2024_02_24 strptime_2024_03_01 p]
  obtain r' where r': "calculate_statutory_claim clock_2024_02_24 (Fin 5000) ''2024-03-01'' = Inr r'"
    and z: "toordinal clock_2024_02_24 \<le> toordinal
              \<lparr>year = 2024, month = 3, day = 1, hour = 0, minute = 0, second = 0, microsecond = 0\<rparr>
            \<longrightarrow> statutory_interest_gbp r' = Fin 0"
    by blast
  have i': "statutory_interest_gbp r' = Fin 0"
    using z by (simp add: toordinal_clock_2024_02_24 toordinal_date_2024_03_01)
  have 1: "map_sum id statutory_interest_gbp
     (calculate_statutory_claim clock_2024_02_24 (Fin 5000) ''2024-01-15'') =
       Inr (Fin (round_double (spec_interest 5000 40)))"
    unfolding r using i by simp
  have 2: "map_sum id days_overdue
     (calculate_statutory_claim clock_2024_02_24 (Fin 5000) ''2024-01-15'') = Inr 40"
    unfolding r using d40 by simp
  have 3: "map_sum id statutory_interest_gbp
     (calculate_statutory_claim clock_2024_02_24 (Fin 5000) ''2024-03-01'') = Inr (Fin 0)"
    unfolding r' using i' by simp
  from 1 spec_interest_5000_40 2 3 show ?thesis by (intro conjI)
qed












end
